(* ===== verification/Mb_Prelude.thy ===== *)
theory Mb_Prelude
  imports Main "HOL-Library.Word"
begin

text \<open>
  Shared vocabulary of the mbproxy development: the machine types of the Go source, the
  outcome of an operation that may panic, big-endian 16-bit coding, decimal printing as
  \<^verbatim>\<open>fmt.Sprintf("%d", n)\<close> does it, Go's clock arithmetic, and the list and
  word lemmas every component uses. The collections declared here carry the component proofs:
  \<open>mb_consts\<close> holds the numeric constants of the protocol, \<open>mb_ops\<close> the small operations
  that a proof normally unfolds, \<open>mb_wf\<close> the well-formedness lemmas.
\<close>

unbundle bit_operations_syntax

named_theorems mb_consts "numeric constants of the Modbus protocol"
named_theorems mb_ops "small operations a proof normally unfolds"
named_theorems mb_wf "well-formedness and preservation lemmas"

subsection \<open>Machine types\<close>

type_synonym byte = "8 word"
type_synonym u16 = "16 word"
type_synonym u64 = "64 word"
type_synonym bytes = "byte list"

text \<open>
  \<^verbatim>\<open>time.Time\<close> is an \<open>int\<close>: nanoseconds since Go's zero time, so that
  \<^verbatim>\<open>t.IsZero()\<close> is \<open>t = 0\<close>. \<^verbatim>\<open>time.Duration\<close> is an
  \<^verbatim>\<open>int64\<close>: a 64-bit word read as two's complement.
\<close>

type_synonym time = int
type_synonym duration = "64 word"

definition IsZero :: "time \<Rightarrow> bool" where
  [mb_ops]: "IsZero t \<longleftrightarrow> t = 0"

definition maxDuration :: duration where
  "maxDuration = 0x7FFFFFFFFFFFFFFF"

text \<open>\<^verbatim>\<open>t.Sub(u)\<close> saturates at the ends of \<^verbatim>\<open>int64\<close>.\<close>

definition time_sub :: "time \<Rightarrow> time \<Rightarrow> duration" where
  "time_sub t u = word_of_int (max (- (2 ^ 63)) (min (2 ^ 63 - 1) (t - u)))"

definition time_add :: "time \<Rightarrow> duration \<Rightarrow> time" where
  [mb_ops]: "time_add t d = t + sint d"

definition second :: duration where
  "second = 1000000000"

subsection \<open>Operations that may panic\<close>

text \<open>
  An out-of-range index or slice expression panics in Go. \<open>slice xs lo hi\<close> is
  \<^verbatim>\<open>xs[lo:hi]\<close> on a slice whose capacity is its length.
\<close>

datatype 'a go = Returns 'a | Panics

lemma map_go_Returns: "map_go f x = Returns z \<longleftrightarrow> (\<exists>b. x = Returns b \<and> z = f b)"
  by (cases x) auto

definition slice :: "'a list \<Rightarrow> nat \<Rightarrow> nat \<Rightarrow> 'a list go" where
  "slice xs lo hi =
     (if lo \<le> hi \<and> hi \<le> length xs then Returns (take (hi - lo) (drop lo xs)) else Panics)"

subsection \<open>Big-endian 16-bit values\<close>

text \<open>\<^verbatim>\<open>binary.BigEndian.Uint16\<close> and \<^verbatim>\<open>PutUint16\<close>.\<close>

definition Uint16 :: "bytes \<Rightarrow> u16" where
  "Uint16 b = push_bit 8 (ucast (b ! 0)) OR ucast (b ! 1)"

definition PutUint16 :: "u16 \<Rightarrow> bytes" where
  "PutUint16 v = [ucast (drop_bit 8 v), ucast v]"

subsection \<open>Decimal printing\<close>

definition digit_char :: "nat \<Rightarrow> char" where
  "digit_char d = char_of (48 + d)"

fun fmt_d :: "nat \<Rightarrow> string" where
  "fmt_d n = (if n < 10 then [digit_char n] else fmt_d (n div 10) @ [digit_char (n mod 10)])"

declare fmt_d.simps [simp del]

definition fmt_i :: "int \<Rightarrow> string" where
  "fmt_i i = (if i < 0 then CHR ''-'' # fmt_d (nat (- i)) else fmt_d (nat i))"

text \<open>\<^verbatim>\<open>%02X\<close> and \<^verbatim>\<open>%04X\<close>: upper-case hexadecimal, padded with zeros.\<close>

definition hex_char :: "nat \<Rightarrow> char" where
  "hex_char d = char_of (if d < 10 then 48 + d else 55 + d)"

fun hex_digits :: "nat \<Rightarrow> string" where
  "hex_digits n = (if n < 16 then [hex_char n] else hex_digits (n div 16) @ [hex_char (n mod 16)])"

declare hex_digits.simps [simp del]

definition fmt_0X :: "nat \<Rightarrow> nat \<Rightarrow> string" where
  "fmt_0X width n = replicate (width - length (hex_digits n)) (CHR ''0'') @ hex_digits n"

subsection \<open>Lemmas\<close>

lemma slice_Returns_iff:
  "slice xs lo hi = Returns ys \<longleftrightarrow>
     lo \<le> hi \<and> hi \<le> length xs \<and> ys = take (hi - lo) (drop lo xs)"
  by (auto simp: slice_def)

lemma slice_Panics_iff: "slice xs lo hi = Panics \<longleftrightarrow> \<not> (lo \<le> hi \<and> hi \<le> length xs)"
  by (simp add: slice_def)

lemma length_PutUint16 [simp]: "length (PutUint16 v) = 2"
  by (simp add: PutUint16_def)

lemma Uint16_PutUint16 [simp]: "Uint16 (PutUint16 v) = v"
  by (rule bit_word_eqI)
    (auto simp: Uint16_def PutUint16_def bit_simps)

lemma Uint16_PutUint16_append [simp]: "Uint16 (PutUint16 v @ xs) = v"
proof -
  have "Uint16 (PutUint16 v @ xs) = Uint16 (PutUint16 v)"
    by (simp add: Uint16_def PutUint16_def)
  then show ?thesis by simp
qed

lemma PutUint16_Uint16: "PutUint16 (Uint16 [a, b]) = [a, b]"
proof -
  have "ucast (drop_bit 8 (Uint16 [a, b])) = a"
    by (rule bit_word_eqI) (auto simp: Uint16_def bit_simps dest: bit_imp_le_length)
  moreover have "ucast (Uint16 [a, b]) = b"
    by (rule bit_word_eqI) (auto simp: Uint16_def bit_simps)
  ultimately show ?thesis by (simp add: PutUint16_def)
qed

lemma unat_byte_less: "unat (b :: byte) < 256"
proof -
  have "unat b < 2 ^ LENGTH(8)" by (rule unsigned_less)
  then show ?thesis by simp
qed

lemma unat_u16_less: "unat (w :: u16) < 65536"
proof -
  have "unat w < 2 ^ LENGTH(16)" by (rule unsigned_less)
  then show ?thesis by simp
qed

lemma unat_ucast_8_16 [simp]: "unat (ucast (b :: byte) :: u16) = unat b"
  using unat_byte_less [of b] by (simp add: unsigned_ucast_eq take_bit_nat_eq_self_iff)

lemma unat_Uint16: "unat (Uint16 [a, b]) = 256 * unat a + unat b"
proof -
  have "Uint16 [a, b] = push_bit 8 (ucast a) + ucast b"
    unfolding Uint16_def
    by (simp, rule sym, rule disjunctive_add) (auto simp: bit_simps dest: bit_imp_le_length)
  moreover have "unat (push_bit 8 (ucast a) :: u16) = 256 * unat a"
    using unat_byte_less [of a] by (simp add: push_bit_eq_mult unat_word_ariths)
  ultimately show ?thesis
    using unat_byte_less [of a] unat_byte_less [of b] by (simp add: unat_word_ariths)
qed

lemma digit_char_inj: "a < 10 \<Longrightarrow> b < 10 \<Longrightarrow> digit_char a = digit_char b \<Longrightarrow> a = b"
proof -
  assume "a < 10" "b < 10" "digit_char a = digit_char b"
  then have "of_char (char_of (48 + a)) = (of_char (char_of (48 + b)) :: nat)"
    by (simp add: digit_char_def)
  with \<open>a < 10\<close> \<open>b < 10\<close> show "a = b" by simp
qed

lemma fmt_d_nonempty [simp]: "fmt_d n \<noteq> []"
  by (subst fmt_d.simps) simp

lemma fmt_d_digits: "c \<in> set (fmt_d n) \<Longrightarrow> \<exists>d < 10. c = digit_char d"
proof (induction n rule: fmt_d.induct)
  case (1 n)
  show ?case
  proof (cases "n < 10")
    case True
    with "1.prems" show ?thesis by (auto simp: fmt_d.simps [of n])
  next
    case False
    with "1.prems" have "c \<in> set (fmt_d (n div 10)) \<or> c = digit_char (n mod 10)"
      by (auto simp: fmt_d.simps [of n])
    moreover have "n mod 10 < 10" by simp
    ultimately show ?thesis using "1.IH" False by blast
  qed
qed

lemma digit_char_not_colon: "d < 10 \<Longrightarrow> digit_char d \<noteq> CHR '':''"
proof
  assume "d < 10" "digit_char d = CHR '':''"
  then have "of_char (digit_char d) = (58::nat)" by simp
  with \<open>d < 10\<close> show False by (simp add: digit_char_def)
qed

lemma fmt_d_no_colon [simp]: "CHR '':'' \<notin> set (fmt_d n)"
  using fmt_d_digits digit_char_not_colon by metis

lemma fmt_d_inj: "fmt_d m = fmt_d n \<longleftrightarrow> m = n"
proof
  assume "fmt_d m = fmt_d n"
  then show "m = n"
  proof (induction m arbitrary: n rule: fmt_d.induct)
    case (1 m)
    have small: "m < 10 \<longleftrightarrow> n < 10"
      using "1.prems" fmt_d_nonempty [of "m div 10"] fmt_d_nonempty [of "n div 10"]
      by (auto simp: fmt_d.simps [of m] fmt_d.simps [of n] simp del: fmt_d_nonempty split: if_splits)
    show ?case
    proof (cases "m < 10")
      case True
      with small "1.prems" show ?thesis
        by (auto simp: fmt_d.simps [of m] fmt_d.simps [of n] dest: digit_char_inj)
    next
      case False
      with small "1.prems" have "fmt_d (m div 10) = fmt_d (n div 10)"
        and "digit_char (m mod 10) = digit_char (n mod 10)"
        by (auto simp: fmt_d.simps [of m] fmt_d.simps [of n])
      with False have "m div 10 = n div 10" and "m mod 10 = n mod 10"
        by (auto intro: "1.IH" digit_char_inj)
      then show ?thesis by (metis div_mult_mod_eq)
    qed
  qed
qed simp

text \<open>Two texts cut at their first separator agree on both sides of it.\<close>

lemma split_at_first:
  "c \<notin> set xs \<Longrightarrow> c \<notin> set ys \<Longrightarrow> xs @ c # us = ys @ c # vs \<longleftrightarrow> xs = ys \<and> us = vs"
proof (induction xs arbitrary: ys)
  case Nil
  then show ?case by (cases ys) auto
next
  case (Cons x xs)
  then show ?case by (cases ys) auto
qed

lemma sint_time_sub:
  "sint (time_sub t u) = max (- (2 ^ 63)) (min (2 ^ 63 - 1) (t - u))"
proof -
  have *: "- (2 ^ 63) \<le> x \<Longrightarrow> x < 2 ^ 63 \<Longrightarrow> sint (word_of_int x :: 64 word) = x" for x :: int
    by (simp add: sint_sbintrunc' signed_take_bit_int_eq_self)
  show ?thesis unfolding time_sub_def by (rule *) auto
qed

lemma sint_range: "- (2 ^ 63) \<le> sint (d :: duration)" "sint (d :: duration) < 2 ^ 63"
  using sint_ge [of d] sint_lt [of d] by simp_all

lemma sint_maxDuration [simp]: "sint maxDuration = 2 ^ 63 - 1"
  by (simp add: maxDuration_def)

lemma u16_offset_inj:
  assumes "i < 65536" and "j < 65536"
  shows "(a + of_nat i :: u16) = a + of_nat j \<longleftrightarrow> i = j"
proof -
  have "unat (of_nat i :: u16) = i" "unat (of_nat j :: u16) = j"
    using assms by (simp_all add: unat_of_nat)
  then show ?thesis by (metis add_left_cancel)
qed

end
