(* ===== verification/Go_Errors.thy ===== *)
theory Go_Errors
  imports Mb_Prelude
begin

text \<open>
  Errors as values: the error types of \<^verbatim>\<open>internal/modbus/errors.go\<close>, the
  coalescing wrapper of \<^verbatim>\<open>internal/cache/cache.go\<close>, the sentinel and network
  errors of the Go standard library that \<open>classifyError\<close> looks for, Go's
  \<^verbatim>\<open>errors.Is\<close> and \<^verbatim>\<open>errors.As\<close> along the unwrap chain, the
  classification of a failure and its mapping to a Modbus exception code.
\<close>

subsection \<open>Exception codes\<close>

definition ExcIllegalFunction :: byte where [mb_consts]: "ExcIllegalFunction = 0x01"
definition ExcIllegalAddress :: byte where [mb_consts]: "ExcIllegalAddress = 0x02"
definition ExcIllegalValue :: byte where [mb_consts]: "ExcIllegalValue = 0x03"
definition ExcServerFailure :: byte where [mb_consts]: "ExcServerFailure = 0x04"
definition ExcGatewayTargetFailed :: byte where [mb_consts]: "ExcGatewayTargetFailed = 0x0B"

subsection \<open>Error kinds, timing and error values\<close>

text \<open>\<open>KindNone\<close> is the empty \<^verbatim>\<open>ErrorKind\<close> returned for a nil error.\<close>

datatype error_kind =
    KindNone
  | ErrorProtocolException
  | ErrorTransportTimeout
  | ErrorTransportClosed
  | ErrorContextDeadline
  | ErrorContextCanceled
  | ErrorLocal

record requestTiming =
  tqueue :: duration
  tattempt :: duration
  treconnect :: duration
  ttotal :: duration

datatype errno =
    ECONNRESET | ECONNABORTED | ECONNREFUSED | ENETUNREACH | EHOSTUNREACH | EPIPE
  | ETIMEDOUT | EAGAIN | OtherErrno nat

text \<open>
  \<open>DeadlineExceeded\<close> and \<open>Canceled\<close> are the two context errors. \<open>DialTimeout\<close> and
  \<open>DialCanceled\<close> are what package \<^verbatim>\<open>net\<close> returns when a dial runs into its own
  deadline or is cancelled: separate values whose \<^verbatim>\<open>Is\<close> method matches the
  context error. \<open>PollTimeout\<close> is \<^verbatim>\<open>os.ErrDeadlineExceeded\<close>, the expiry of a
  socket deadline. \<open>MbError fc ec\<close> is \<^verbatim>\<open>gridmodbus.Error\<close>. \<open>Plain\<close> is any error
  with a text and no cause, \<open>Wrap\<close> is \<^verbatim>\<open>fmt.Errorf\<close> with \<^verbatim>\<open>%w\<close>.
\<close>

datatype goerror =
    DeadlineExceeded
  | Canceled
  | EOF
  | UnexpectedEOF
  | NetErrClosed
  | OsErrClosed
  | Errno errno
  | DialTimeout
  | DialCanceled
  | PollTimeout
  | DNSError bool "goerror option"
  | OpError goerror
  | SyscallError goerror
  | MbError byte byte
  | Plain string
  | Wrap string goerror
  | validationError byte goerror
  | upstreamCommunicationError goerror
  | RequestError error_kind byte int requestTiming goerror
  | coalescingError bool duration goerror

subsection \<open>The unwrap chain\<close>

fun chain :: "goerror \<Rightarrow> goerror list" where
  "chain (DNSError t (Some e)) = DNSError t (Some e) # chain e"
| "chain (OpError e) = OpError e # chain e"
| "chain (SyscallError e) = SyscallError e # chain e"
| "chain (Wrap s e) = Wrap s e # chain e"
| "chain (validationError c e) = validationError c e # chain e"
| "chain (upstreamCommunicationError e) = upstreamCommunicationError e # chain e"
| "chain (RequestError k c n t e) = RequestError k c n t e # chain e"
| "chain (coalescingError b d e) = coalescingError b d e # chain e"
| "chain e = [e]"

text \<open>One link of \<^verbatim>\<open>errors.Is\<close>: identity, or the link's own \<^verbatim>\<open>Is\<close>.\<close>

fun matches :: "goerror \<Rightarrow> goerror \<Rightarrow> bool" where
  "matches DialTimeout t = (t = DialTimeout \<or> t = DeadlineExceeded)"
| "matches DialCanceled t = (t = DialCanceled \<or> t = Canceled)"
| "matches e t = (e = t)"

definition errorsIs :: "goerror \<Rightarrow> goerror \<Rightarrow> bool" where
  "errorsIs e t = list_ex (\<lambda>x. matches x t) (chain e)"

fun first_some :: "('a \<Rightarrow> 'b option) \<Rightarrow> 'a list \<Rightarrow> 'b option" where
  "first_some f [] = None"
| "first_some f (x # xs) = (case f x of Some y \<Rightarrow> Some y | None \<Rightarrow> first_some f xs)"

text \<open>\<^verbatim>\<open>errors.As\<close>: the first link the selector accepts.\<close>

definition errorsAs :: "(goerror \<Rightarrow> 'b option) \<Rightarrow> goerror \<Rightarrow> 'b option" where
  "errorsAs sel e = first_some sel (chain e)"

fun asValidation :: "goerror \<Rightarrow> byte option" where
  "asValidation (validationError c e) = Some c"
| "asValidation _ = None"

fun asUpstream :: "goerror \<Rightarrow> unit option" where
  "asUpstream (upstreamCommunicationError e) = Some ()"
| "asUpstream _ = None"

fun asMbError :: "goerror \<Rightarrow> (byte \<times> byte) option" where
  "asMbError (MbError fc ec) = Some (fc, ec)"
| "asMbError _ = None"

fun asRequestError :: "goerror \<Rightarrow> (error_kind \<times> byte) option" where
  "asRequestError (RequestError k c n t e) = Some (k, c)"
| "asRequestError _ = None"

text \<open>
  \<open>timeoutOf\<close> is the \<^verbatim>\<open>Timeout()\<close> method where a type has one;
  \<open>netError\<close> is the same for the types that implement \<^verbatim>\<open>net.Error\<close>
  (\<^verbatim>\<open>os.SyscallError\<close> does not).
\<close>

fun timeoutOf :: "goerror \<Rightarrow> bool option" where
  "timeoutOf DeadlineExceeded = Some True"
| "timeoutOf (Errno n) = Some (n = EAGAIN \<or> n = ETIMEDOUT)"
| "timeoutOf DialTimeout = Some True"
| "timeoutOf PollTimeout = Some True"
| "timeoutOf NetErrClosed = Some False"
| "timeoutOf (DNSError t _) = Some t"
| "timeoutOf (OpError e) = Some (timeoutOf e = Some True)"
| "timeoutOf (SyscallError e) = Some (timeoutOf e = Some True)"
| "timeoutOf _ = None"

definition netError :: "goerror \<Rightarrow> bool option" where
  "netError e = (case e of SyscallError _ \<Rightarrow> None | _ \<Rightarrow> timeoutOf e)"

subsection \<open>Classification\<close>

definition closedErrors :: "goerror list" where
  "closedErrors =
     [EOF, UnexpectedEOF, NetErrClosed, OsErrClosed, Errno ECONNRESET, Errno ECONNABORTED,
      Errno ECONNREFUSED, Errno ENETUNREACH, Errno EHOSTUNREACH, Errno EPIPE]"

definition classifyError :: "goerror option \<Rightarrow> error_kind \<times> byte" where
  "classifyError err = (case err of None \<Rightarrow> (KindNone, 0) | Some e \<Rightarrow>
     if errorsIs e DeadlineExceeded then (ErrorContextDeadline, 0)
     else if errorsIs e Canceled then (ErrorContextCanceled, 0)
     else (case errorsAs asValidation e of Some c \<Rightarrow> (ErrorLocal, c) | None \<Rightarrow>
       (case errorsAs asUpstream e of Some _ \<Rightarrow> (ErrorTransportClosed, 0) | None \<Rightarrow>
       (case errorsAs asMbError e of Some (fc, ec) \<Rightarrow> (ErrorProtocolException, ec) | None \<Rightarrow>
         if errorsAs netError e = Some True then (ErrorTransportTimeout, 0)
         else if list_ex (errorsIs e) closedErrors then (ErrorTransportClosed, 0)
         else if errorsAs netError e \<noteq> None then (ErrorTransportClosed, 0)
         else (ErrorLocal, 0)))))"

definition ErrorKindOf :: "goerror option \<Rightarrow> error_kind" where
  "ErrorKindOf err = (case err of None \<Rightarrow> fst (classifyError None) | Some e \<Rightarrow>
     (case errorsAs asRequestError e of
        Some (k, c) \<Rightarrow> k
      | None \<Rightarrow> fst (classifyError (Some e))))"

text \<open>The tail of \<^verbatim>\<open>DownstreamException\<close>, after the two request-error cases.\<close>

definition downstreamByType :: "goerror \<Rightarrow> byte" where
  "downstreamByType e =
     (case errorsAs asUpstream e of Some _ \<Rightarrow> ExcGatewayTargetFailed | None \<Rightarrow>
     (case errorsAs asMbError e of Some (fc, ec) \<Rightarrow> ec | None \<Rightarrow>
     (case errorsAs asValidation e of Some c \<Rightarrow> c | None \<Rightarrow>
       if ErrorKindOf (Some e) \<in> {ErrorTransportTimeout, ErrorTransportClosed,
            ErrorContextDeadline, ErrorContextCanceled}
       then ExcGatewayTargetFailed else ExcServerFailure)))"

definition DownstreamException :: "goerror \<Rightarrow> byte" where
  "DownstreamException e =
     (case errorsAs asRequestError e of
        Some (k, c) \<Rightarrow>
          if k = ErrorProtocolException then c
          else if k = ErrorLocal \<and> c \<noteq> 0 then c
          else downstreamByType e
      | None \<Rightarrow> downstreamByType e)"

definition requestError :: "goerror \<Rightarrow> int \<Rightarrow> requestTiming \<Rightarrow> goerror" where
  "requestError err attempts timing =
     (let (kind, exceptionCode) = classifyError (Some err)
      in RequestError kind exceptionCode attempts timing err)"

definition newValidationError :: "byte \<Rightarrow> string \<Rightarrow> goerror" where
  [mb_ops]: "newValidationError exceptionCode msg = validationError exceptionCode (Plain msg)"

definition attributedCoalescingError :: "goerror \<Rightarrow> bool \<Rightarrow> duration \<Rightarrow> goerror" where
  [mb_ops]: "attributedCoalescingError err coalesced waitDuration =
     coalescingError coalesced waitDuration err"

definition isTransportError :: "goerror option \<Rightarrow> bool" where
  "isTransportError err =
     (fst (classifyError err) = ErrorTransportTimeout \<or> fst (classifyError err) = ErrorTransportClosed)"

subsection \<open>Wrappers are transparent\<close>

lemma chain_self: "e \<in> set (chain e)"
  by (cases e rule: chain.cases) auto

lemma chain_Wrap_like [simp]:
  "errorsIs (Wrap s e) t = (t = Wrap s e \<or> errorsIs e t)"
  "errorsIs (coalescingError b d e) t = (t = coalescingError b d e \<or> errorsIs e t)"
  "errorsIs (RequestError k c n tm e) t = (t = RequestError k c n tm e \<or> errorsIs e t)"
  by (auto simp: errorsIs_def)

lemma errorsAs_Wrap_like [simp]:
  "sel (Wrap s e) = None \<Longrightarrow> errorsAs sel (Wrap s e) = errorsAs sel e"
  "sel (coalescingError b d e) = None \<Longrightarrow> errorsAs sel (coalescingError b d e) = errorsAs sel e"
  "sel (RequestError k c n tm e) = None \<Longrightarrow> errorsAs sel (RequestError k c n tm e) = errorsAs sel e"
  by (simp_all add: errorsAs_def)

lemma errorsAs_RequestError [simp]:
  "errorsAs asRequestError (RequestError k c n tm e) = Some (k, c)"
  by (simp add: errorsAs_def)

lemma netError_wrappers [simp]:
  "netError (Wrap s e) = None"
  "netError (coalescingError b d e) = None"
  "netError (RequestError k c n tm e) = None"
  by (simp_all add: netError_def)

lemma closedErrors_not_wrapper:
  "Wrap s e \<notin> set closedErrors" "coalescingError b d e \<notin> set closedErrors"
  by (simp_all add: closedErrors_def)

lemma closed_via_wrapper:
  assumes "\<And>t. errorsIs w t = (t = w \<or> errorsIs e t)" and "w \<notin> set closedErrors"
  shows "list_ex (errorsIs w) closedErrors = list_ex (errorsIs e) closedErrors"
  using assms by (auto simp: list_ex_iff)

text \<open>
  A wrapper that is no sentinel, no network error and none of the types
  \<open>classifyError\<close> looks for leaves the classification alone.
\<close>

lemma classifyError_coalescing:
  "classifyError (Some (coalescingError b d e)) = classifyError (Some e)"
  by (simp add: classifyError_def closed_via_wrapper [where e = e] closedErrors_not_wrapper
      cong: option.case_cong)

lemma classifyError_Wrap: "classifyError (Some (Wrap s e)) = classifyError (Some e)"
  by (simp add: classifyError_def closed_via_wrapper [where e = e] closedErrors_not_wrapper
      cong: option.case_cong)

lemma ErrorKindOf_coalescing:
  "ErrorKindOf (Some (coalescingError b d e)) = ErrorKindOf (Some e)"
  by (simp add: ErrorKindOf_def classifyError_coalescing split: option.split)

lemma downstreamByType_coalescing:
  "downstreamByType (coalescingError b d e) = downstreamByType e"
  by (simp add: downstreamByType_def ErrorKindOf_coalescing cong: option.case_cong)

lemma DownstreamException_coalescing:
  "DownstreamException (coalescingError b d e) = DownstreamException e"
  by (simp add: DownstreamException_def downstreamByType_coalescing split: option.split)

lemma classifyError_nil [simp]: "classifyError None = (KindNone, 0)"
  by (simp add: classifyError_def)

lemma classifyError_Some_kind: "fst (classifyError (Some e)) \<noteq> KindNone"
  by (simp add: classifyError_def split: option.split)

lemma classifyError_context [simp]:
  "classifyError (Some DeadlineExceeded) = (ErrorContextDeadline, 0)"
  "classifyError (Some Canceled) = (ErrorContextCanceled, 0)"
  by (simp_all add: classifyError_def errorsIs_def)

text \<open>Only a validation error and a Modbus exception carry an exception code.\<close>

lemma classifyError_code:
  "classifyError (Some e) = (k, c) \<Longrightarrow> c \<noteq> 0 \<Longrightarrow> k = ErrorLocal \<or> k = ErrorProtocolException"
  by (auto simp: classifyError_def split: option.splits if_splits)

text \<open>A chain ends in one leaf, so a Modbus exception excludes a context error.\<close>

lemma chain_Nil [simp]: "chain e \<noteq> []"
  by (cases e rule: chain.cases) auto

lemma leaf_only_last:
  "x \<in> set (chain e) \<Longrightarrow> chain x = [x] \<Longrightarrow> last (chain e) = x"
  by (induction e rule: chain.induct) auto

lemma first_some_found: "first_some f xs = Some y \<Longrightarrow> \<exists>x \<in> set xs. f x = Some y"
  by (induction xs) (auto split: option.splits)

lemma errorsIs_leaf:
  assumes "errorsIs e t" and "t = DeadlineExceeded \<or> t = Canceled"
  shows "last (chain e) \<in> {DeadlineExceeded, Canceled, DialTimeout, DialCanceled}"
proof -
  obtain x where x: "x \<in> set (chain e)" "matches x t"
    using assms(1) by (auto simp: errorsIs_def list_ex_iff)
  then have "x \<in> {DeadlineExceeded, Canceled, DialTimeout, DialCanceled}"
    using assms(2) by (cases "(x, t)" rule: matches.cases) auto
  with x(1) leaf_only_last [of x e] show ?thesis by auto
qed

lemma asMbError_leaf:
  assumes "errorsAs asMbError e = Some p"
  shows "\<exists>fc ec. last (chain e) = MbError fc ec"
proof -
  obtain x where "x \<in> set (chain e)" "asMbError x = Some p"
    using first_some_found assms by (fastforce simp: errorsAs_def)
  then show ?thesis using leaf_only_last [of x e] by (cases x rule: asMbError.cases) auto
qed

lemma context_no_MbError:
  "errorsIs e DeadlineExceeded \<or> errorsIs e Canceled \<Longrightarrow> errorsAs asMbError e = None"
  using errorsIs_leaf [of e] asMbError_leaf [of e] by (cases "errorsAs asMbError e") fastforce+

subsection \<open>Properties\<close>

text \<open>
  The wrapper that attributes a failure to coalescing is invisible to the rest of the
  proxy: the error kind, the exception code sent downstream, the classification and the context
  test of a wrapped error are those of the error itself.
\<close>

lemma coalescing_attribution_transparent:
  "ErrorKindOf (Some (attributedCoalescingError e b d)) = ErrorKindOf (Some e) \<and>
   DownstreamException (attributedCoalescingError e b d) = DownstreamException e \<and>
   classifyError (Some (attributedCoalescingError e b d)) = classifyError (Some e) \<and>
   (errorsIs (attributedCoalescingError e b d) DeadlineExceeded = errorsIs e DeadlineExceeded) \<and>
   (errorsIs (attributedCoalescingError e b d) Canceled = errorsIs e Canceled)"
  by (simp add: attributedCoalescingError_def ErrorKindOf_coalescing DownstreamException_coalescing
      classifyError_coalescing)

text \<open>
  The exception code a client sees for a failed upstream request is a function of the
  error's class: a Modbus exception of the device is passed through with its own code, transport
  and context failures become 0x0B (gateway target failed), everything else 0x04. This is for
  errors that are not local validation errors; those carry their own code.
\<close>

lemma downstream_code_by_kind:
  assumes "errorsAs asValidation err = None"
  shows "DownstreamException (requestError err n tm) =
    (case classifyError (Some err) of (kind, ec) \<Rightarrow>
       if kind = ErrorProtocolException then ec
       else if kind = ErrorLocal then ExcServerFailure
       else ExcGatewayTargetFailed)"
  using assms context_no_MbError [of err]
  by (auto simp: DownstreamException_def downstreamByType_def requestError_def ErrorKindOf_def
      classifyError_def split: option.splits)


end
