(* ===== verification/Config_Load.thy ===== *)
theory Config_Load
  imports Go_Errors
begin

text \<open>
  Configuration (\<^verbatim>\<open>internal/config/config.go\<close>) and the log level of
  \<^verbatim>\<open>internal/logging/logging.go\<close>. The process environment is a partial map;
  \<^verbatim>\<open>time.ParseDuration\<close> is an argument of \<open>Load\<close> (it rounds decimal fractions in
  floating point), so what is shown holds for every parser. The lemmas give the defaults, the
  guarantees every accepted configuration has, and that a bad setting is never replaced by a
  default.
\<close>

subsection \<open>The environment\<close>

type_synonym environment = "string \<rightharpoonup> string"

definition Getenv :: "environment \<Rightarrow> string \<Rightarrow> string" where
  "Getenv env key = (case env key of None \<Rightarrow> [] | Some v \<Rightarrow> v)"

definition GetEnv :: "environment \<Rightarrow> string \<Rightarrow> string \<Rightarrow> string" where
  "GetEnv env key defaultValue =
     (let v = Getenv env key in if v \<noteq> [] then v else defaultValue)"

text \<open>
  \<^verbatim>\<open>strings.ToLower\<close> and \<^verbatim>\<open>strings.ToUpper\<close> on the bytes of a UTF-8
  text, as far as a comparison with an ASCII constant can see: ASCII letters change case. The two
  letters beyond ASCII whose upper case is an ASCII letter, dotless i (C4 B1) and long s (C5 BF),
  are converted by \<open>ToUpper\<close>; the two whose lower case is ASCII, I with dot (C4 B0) and the
  Kelvin sign (E2 84 AA), by \<open>ToLower\<close>.
\<close>

definition lower_char :: "char \<Rightarrow> char" where
  "lower_char c = (let n = (of_char c :: nat) in if 65 \<le> n \<and> n \<le> 90 then char_of (n + 32) else c)"

definition upper_char :: "char \<Rightarrow> char" where
  "upper_char c = (let n = (of_char c :: nat) in if 97 \<le> n \<and> n \<le> 122 then char_of (n - 32) else c)"

fun ToLower :: "string \<Rightarrow> string" where
  "ToLower [] = []"
| "ToLower (c # cs) =
     (case cs of
        d # ds \<Rightarrow>
          if of_char c = (0xC4 :: nat) \<and> of_char d = (0xB0 :: nat) then CHR ''i'' # ToLower ds
          else (case ds of
            e # es \<Rightarrow>
              if of_char c = (0xE2 :: nat) \<and> of_char d = (0x84 :: nat) \<and> of_char e = (0xAA :: nat)
              then CHR ''k'' # ToLower es
              else lower_char c # ToLower cs
          | [] \<Rightarrow> lower_char c # ToLower cs)
      | [] \<Rightarrow> [lower_char c])"

fun ToUpper :: "string \<Rightarrow> string" where
  "ToUpper [] = []"
| "ToUpper (c # cs) =
     (case cs of
        d # ds \<Rightarrow>
          if of_char c = (0xC4 :: nat) \<and> of_char d = (0xB1 :: nat) then CHR ''I'' # ToUpper ds
          else if of_char c = (0xC5 :: nat) \<and> of_char d = (0xBF :: nat) then CHR ''S'' # ToUpper ds
          else upper_char c # ToUpper cs
      | [] \<Rightarrow> [upper_char c])"

text \<open>
  \<^verbatim>\<open>strconv.ParseUint(s, 10, 8)\<close>: the first offending character decides between a
  syntax error and a range error.
\<close>

definition ErrSyntax :: goerror where "ErrSyntax = Plain ''invalid syntax''"
definition ErrRange :: goerror where "ErrRange = Plain ''value out of range''"

fun parseDigits :: "nat \<Rightarrow> string \<Rightarrow> goerror + nat" where
  "parseDigits n [] = Inr n"
| "parseDigits n (c # cs) =
     (let k = (of_char c :: nat) in
      if k < 48 \<or> 57 < k then Inl ErrSyntax
      else let n' = 10 * n + (k - 48) in
        if 255 < n' then Inl ErrRange else parseDigits n' cs)"

definition ParseUint8 :: "string \<Rightarrow> goerror + nat" where
  "ParseUint8 s = (case (if s = [] then Inl ErrSyntax else parseDigits 0 s) of
     Inl e \<Rightarrow> Inl (Wrap ''strconv.ParseUint'' e)
   | Inr n \<Rightarrow> Inr n)"

subsection \<open>Configuration\<close>

datatype readOnlyMode = ReadOnlyOff | ReadOnlyOn | ReadOnlyDeny

record config =
  Listen :: string
  Upstream :: string
  DefaultSlaveID :: byte
  CacheTTL :: duration
  CacheServeStale :: bool
  ReadOnly :: readOnlyMode
  AttemptTimeout :: duration
  RequestTimeout :: duration
  RequestDelay :: duration
  ConnectDelay :: duration
  ShutdownTimeout :: duration
  HealthListen :: string
  LogLevel :: string

text \<open>A setting that is not there or empty is \<open>Inr None\<close>.\<close>

definition parsePositiveDuration ::
  "(string \<Rightarrow> goerror + duration) \<Rightarrow> environment \<Rightarrow> string \<Rightarrow> goerror + duration option" where
  "parsePositiveDuration ParseDuration env name =
     (let s = Getenv env name in
      if s = [] then Inr None
      else (case ParseDuration s of
              Inl err \<Rightarrow> Inl (Wrap (''invalid '' @ name) err)
            | Inr d \<Rightarrow>
                if d \<le>s 0 then Inl (Plain (''invalid '' @ name @ '': must be greater than zero''))
                else Inr (Some d)))"

text \<open>The four settings that any duration is accepted for.\<close>

definition parseDurationSetting ::
  "(string \<Rightarrow> goerror + duration) \<Rightarrow> environment \<Rightarrow> string \<Rightarrow> duration \<Rightarrow> goerror + duration" where
  "parseDurationSetting ParseDuration env name default_value =
     (let s = Getenv env name in
      if s = [] then Inr default_value
      else (case ParseDuration s of
              Inl err \<Rightarrow> Inl (Wrap (''invalid '' @ name) err)
            | Inr d \<Rightarrow> Inr d))"

definition defaultConfig :: "environment \<Rightarrow> config" where
  "defaultConfig env =
     \<lparr>Listen = GetEnv env ''MODBUS_LISTEN'' '':5502'',
      Upstream = Getenv env ''MODBUS_UPSTREAM'',
      DefaultSlaveID = 1,
      CacheTTL = 10 * second,
      CacheServeStale = False,
      ReadOnly = ReadOnlyOn,
      AttemptTimeout = 10 * second,
      RequestTimeout = 30 * second,
      RequestDelay = 0,
      ConnectDelay = 0,
      ShutdownTimeout = 30 * second,
      HealthListen = Getenv env ''HEALTH_LISTEN'',
      LogLevel = GetEnv env ''LOG_LEVEL'' ''INFO''\<rparr>"

definition parseSlaveID :: "environment \<Rightarrow> config \<Rightarrow> goerror + config" where
  "parseSlaveID env cfg =
     (let s = Getenv env ''MODBUS_SLAVE_ID'' in
      if s = [] then Inr cfg
      else (case ParseUint8 s of
              Inl err \<Rightarrow> Inl (Wrap ''invalid MODBUS_SLAVE_ID'' err)
            | Inr n \<Rightarrow> Inr (cfg\<lparr>DefaultSlaveID := of_nat n\<rparr>)))"

definition parseReadOnly :: "environment \<Rightarrow> config \<Rightarrow> goerror + config" where
  "parseReadOnly env cfg =
     (let s = Getenv env ''MODBUS_READONLY'' in
      if s = [] then Inr cfg
      else if ToLower s = ''false'' then Inr (cfg\<lparr>ReadOnly := ReadOnlyOff\<rparr>)
      else if ToLower s = ''true'' then Inr (cfg\<lparr>ReadOnly := ReadOnlyOn\<rparr>)
      else if ToLower s = ''deny'' then Inr (cfg\<lparr>ReadOnly := ReadOnlyDeny\<rparr>)
      else Inl (Plain (''invalid MODBUS_READONLY: '' @ s @ '' (must be false, true, or deny)'')))"

text \<open>\<open>and_then\<close> is the early return on an error.\<close>

definition and_then :: "'e + 'a \<Rightarrow> ('a \<Rightarrow> 'e + 'b) \<Rightarrow> 'e + 'b" where
  [mb_ops]: "and_then r f = (case r of Inl e \<Rightarrow> Inl e | Inr x \<Rightarrow> f x)"

definition attemptTimeoutSetting ::
  "(string \<Rightarrow> goerror + duration) \<Rightarrow> environment \<Rightarrow> config \<Rightarrow> goerror + config" where
  "attemptTimeoutSetting ParseDuration env cfg =
     and_then (parsePositiveDuration ParseDuration env ''MODBUS_ATTEMPT_TIMEOUT'') (\<lambda>attemptTimeout.
     and_then (parsePositiveDuration ParseDuration env ''MODBUS_TIMEOUT'') (\<lambda>legacyTimeout.
       if attemptTimeout \<noteq> None \<and> legacyTimeout \<noteq> None \<and> attemptTimeout \<noteq> legacyTimeout
       then Inl (Plain ''MODBUS_ATTEMPT_TIMEOUT and deprecated MODBUS_TIMEOUT must match when both are set'')
       else (case attemptTimeout of
               Some d \<Rightarrow> Inr (cfg\<lparr>AttemptTimeout := d\<rparr>)
             | None \<Rightarrow>
                 (case legacyTimeout of
                    Some d \<Rightarrow> Inr (cfg\<lparr>AttemptTimeout := d\<rparr>)
                  | None \<Rightarrow> Inr cfg))))"

definition Load :: "(string \<Rightarrow> goerror + duration) \<Rightarrow> environment \<Rightarrow> goerror + config" where
  "Load ParseDuration env =
     (let cfg = defaultConfig env in
      if Upstream cfg = [] then Inl (Plain ''MODBUS_UPSTREAM is required'')
      else
        and_then (parseSlaveID env cfg) (\<lambda>cfg.
        and_then (parseDurationSetting ParseDuration env ''MODBUS_CACHE_TTL'' (CacheTTL cfg)) (\<lambda>d.
        let cfg = cfg\<lparr>CacheTTL := d\<rparr>;
            s = Getenv env ''MODBUS_CACHE_SERVE_STALE'';
            cfg = (if s \<noteq> [] then cfg\<lparr>CacheServeStale := (ToLower s = ''true'')\<rparr> else cfg)
        in
        and_then (parseReadOnly env cfg) (\<lambda>cfg.
        and_then (attemptTimeoutSetting ParseDuration env cfg) (\<lambda>cfg.
        and_then (parsePositiveDuration ParseDuration env ''MODBUS_REQUEST_TIMEOUT'') (\<lambda>rt.
        let cfg = (case rt of Some d \<Rightarrow> cfg\<lparr>RequestTimeout := d\<rparr> | None \<Rightarrow> cfg) in
        and_then (parseDurationSetting ParseDuration env ''MODBUS_REQUEST_DELAY'' (RequestDelay cfg)) (\<lambda>d.
        let cfg = cfg\<lparr>RequestDelay := d\<rparr> in
        and_then (parseDurationSetting ParseDuration env ''MODBUS_CONNECT_DELAY'' (ConnectDelay cfg)) (\<lambda>d.
        let cfg = cfg\<lparr>ConnectDelay := d\<rparr> in
        and_then (parseDurationSetting ParseDuration env ''MODBUS_SHUTDOWN_TIMEOUT'' (ShutdownTimeout cfg)) (\<lambda>d.
        Inr (cfg\<lparr>ShutdownTimeout := d\<rparr>))))))))))"

subsection \<open>Log level\<close>

datatype level = LevelDebug | LevelInfo | LevelWarn | LevelError

definition NewLogger :: "string \<Rightarrow> level" where
  "NewLogger s =
     (if ToUpper s = ''DEBUG'' then LevelDebug
      else if ToUpper s = ''WARN'' \<or> ToUpper s = ''WARNING'' then LevelWarn
      else if ToUpper s = ''ERROR'' then LevelError
      else LevelInfo)"

subsection \<open>Lemmas\<close>

lemma and_then_Inr_iff: "and_then r f = Inr y \<longleftrightarrow> (\<exists>x. r = Inr x \<and> f x = Inr y)"
  by (cases r) (auto simp: and_then_def)

lemma and_then_simps [simp]: "and_then (Inr x) f = f x" "and_then (Inl e) f = Inl e"
  by (simp_all add: and_then_def)

lemma parsePositiveDuration_cases:
  assumes "parsePositiveDuration P env n = Inr r"
  shows "(case r of None \<Rightarrow> Getenv env n = [] | Some d \<Rightarrow>
    Getenv env n \<noteq> [] \<and> P (Getenv env n) = Inr d \<and> 0 < sint d)"
  using assms
  by (auto simp: parsePositiveDuration_def Let_def word_sle_eq split: if_splits sum.splits)

lemma parseDurationSetting_cases:
  assumes "parseDurationSetting P env n d0 = Inr d"
  shows "if Getenv env n = [] then d = d0 else P (Getenv env n) = Inr d"
  using assms by (auto simp: parseDurationSetting_def Let_def split: if_splits sum.splits)

lemma parseDigits_Inr:
  "parseDigits n s = Inr m \<longleftrightarrow>
     (\<forall>c \<in> set s. 48 \<le> (of_char c :: nat) \<and> (of_char c :: nat) \<le> 57) \<and>
     m = foldl (\<lambda>n c. 10 * n + (of_char c - 48)) n s \<and> (s = [] \<or> m \<le> 255)"
proof (induction s arbitrary: n)
  case (Cons c cs)
  have mono: "n' \<le> foldl (\<lambda>n c. 10 * n + (of_char c - 48)) n' cs" for n' :: nat
  proof (induction cs arbitrary: n')
    case (Cons d ds)
    from Cons.IH [of "10 * n' + (of_char d - 48)"] show ?case by simp
  qed simp
  show ?case
    using mono [of "10 * n + (of_char c - 48)"]
    by (auto simp: Let_def Cons.IH not_less not_le)
qed auto

lemma parseDigits_fmt_d: "n \<le> 255 \<Longrightarrow> parseDigits 0 (fmt_d n) = Inr n"
proof -
  have val: "foldl (\<lambda>n c. 10 * n + (of_char c - 48)) 0 (fmt_d n) = n" for n :: nat
  proof (induction n rule: fmt_d.induct)
    case (1 n)
    then show ?case
      by (subst fmt_d.simps) (auto simp: digit_char_def)
  qed
  have "48 \<le> (of_char c :: nat) \<and> (of_char c :: nat) \<le> 57" if "c \<in> set (fmt_d n)" for c
    using fmt_d_digits [OF that] by (auto simp: digit_char_def)
  then show "n \<le> 255 \<Longrightarrow> parseDigits 0 (fmt_d n) = Inr n"
    by (simp add: parseDigits_Inr val)
qed

text \<open>What each stage of \<open>Load\<close> changes, and on what condition it goes on.\<close>

lemma parseSlaveID_cases:
  "parseSlaveID env cfg = Inr cfg' \<Longrightarrow> \<exists>i. cfg' = cfg\<lparr>DefaultSlaveID := i\<rparr>"
  by (auto simp: parseSlaveID_def Let_def split: if_splits sum.splits intro: exI [of _ "DefaultSlaveID cfg"])

lemma parseReadOnly_cases:
  assumes "parseReadOnly env cfg = Inr cfg'"
  shows "\<exists>m. cfg' = cfg\<lparr>ReadOnly := m\<rparr> \<and>
    (m = ReadOnly cfg \<or> m \<noteq> ReadOnlyOff \<or> ToLower (Getenv env ''MODBUS_READONLY'') = ''false'')"
  using assms
  by (auto simp: parseReadOnly_def Let_def split: if_splits intro: exI [of _ "ReadOnly cfg"])

lemma attemptTimeoutSetting_cases:
  assumes "attemptTimeoutSetting P env cfg = Inr cfg'"
  shows "\<exists>d. cfg' = cfg\<lparr>AttemptTimeout := d\<rparr> \<and> (d = AttemptTimeout cfg \<or> 0 < sint d) \<and>
    (Getenv env ''MODBUS_ATTEMPT_TIMEOUT'' \<noteq> [] \<longrightarrow> Getenv env ''MODBUS_TIMEOUT'' \<noteq> [] \<longrightarrow>
       P (Getenv env ''MODBUS_ATTEMPT_TIMEOUT'') = P (Getenv env ''MODBUS_TIMEOUT''))"
proof -
  obtain a l where a: "parsePositiveDuration P env ''MODBUS_ATTEMPT_TIMEOUT'' = Inr a"
    and l: "parsePositiveDuration P env ''MODBUS_TIMEOUT'' = Inr l"
    and r: "\<not> (a \<noteq> None \<and> l \<noteq> None \<and> a \<noteq> l)"
      "(case a of Some d \<Rightarrow> Inr (cfg\<lparr>AttemptTimeout := d\<rparr>)
        | None \<Rightarrow> (case l of Some d \<Rightarrow> Inr (cfg\<lparr>AttemptTimeout := d\<rparr>) | None \<Rightarrow> Inr cfg)) =
       (Inr cfg' :: goerror + config)"
    using assms unfolding attemptTimeoutSetting_def and_then_Inr_iff
    by (metis (no_types, lifting) Inl_Inr_False)
  from r parsePositiveDuration_cases [OF a] parsePositiveDuration_cases [OF l]
  have "cfg' = cfg\<lparr>AttemptTimeout := AttemptTimeout cfg'\<rparr> \<and>
      (AttemptTimeout cfg' = AttemptTimeout cfg \<or> 0 < sint (AttemptTimeout cfg'))"
    by (cases a; cases l) auto
  moreover have "Getenv env ''MODBUS_ATTEMPT_TIMEOUT'' \<noteq> [] \<longrightarrow> Getenv env ''MODBUS_TIMEOUT'' \<noteq> [] \<longrightarrow>
       P (Getenv env ''MODBUS_ATTEMPT_TIMEOUT'') = P (Getenv env ''MODBUS_TIMEOUT'')"
    using r(1) parsePositiveDuration_cases [OF a] parsePositiveDuration_cases [OF l]
    by (cases a; cases l) auto
  ultimately show ?thesis by blast
qed

lemma Load_parts:
  assumes "Load P env = Inr cfg"
  obtains i t st m a rt rd cd sd cfg0 cfg1 where
    "cfg = (defaultConfig env)\<lparr>DefaultSlaveID := i, CacheTTL := t, CacheServeStale := st, ReadOnly := m,
       AttemptTimeout := a, RequestTimeout := rt, RequestDelay := rd, ConnectDelay := cd, ShutdownTimeout := sd\<rparr>"
    "Getenv env ''MODBUS_UPSTREAM'' \<noteq> []"
    "m \<noteq> ReadOnlyOff \<or> ToLower (Getenv env ''MODBUS_READONLY'') = ''false''"
    "0 < sint a" "0 < sint rt"
    "Getenv env ''MODBUS_ATTEMPT_TIMEOUT'' \<noteq> [] \<longrightarrow> Getenv env ''MODBUS_TIMEOUT'' \<noteq> [] \<longrightarrow>
       P (Getenv env ''MODBUS_ATTEMPT_TIMEOUT'') = P (Getenv env ''MODBUS_TIMEOUT'')"
proof -
  let ?s = "Getenv env ''MODBUS_CACHE_SERVE_STALE''"
  obtain c1 t c2 c3 rt0 rd cd sd where up: "Upstream (defaultConfig env) \<noteq> []"
    and c1: "parseSlaveID env (defaultConfig env) = Inr c1"
    and c2: "parseReadOnly env (if ?s \<noteq> [] then c1\<lparr>CacheTTL := t, CacheServeStale := (ToLower ?s = ''true'')\<rparr>
        else c1\<lparr>CacheTTL := t\<rparr>) = Inr c2"
    and c3: "attemptTimeoutSetting P env c2 = Inr c3"
    and rt: "parsePositiveDuration P env ''MODBUS_REQUEST_TIMEOUT'' = Inr rt0"
    and cfg: "cfg = (case rt0 of Some d \<Rightarrow> c3\<lparr>RequestTimeout := d\<rparr> | None \<Rightarrow> c3)
        \<lparr>RequestDelay := rd, ConnectDelay := cd, ShutdownTimeout := sd\<rparr>"
    using assms
    by (cases "Upstream (defaultConfig env) = []")
      (auto simp: Load_def Let_def and_then_Inr_iff split del: if_split)
  obtain i where i: "c1 = (defaultConfig env)\<lparr>DefaultSlaveID := i\<rparr>" using parseSlaveID_cases [OF c1] by blast
  obtain m where m: "c2 = c1\<lparr>CacheTTL := t, CacheServeStale := (?s \<noteq> [] \<and> ToLower ?s = ''true''), ReadOnly := m\<rparr>"
      "m \<noteq> ReadOnlyOff \<or> ToLower (Getenv env ''MODBUS_READONLY'') = ''false''"
    using parseReadOnly_cases [OF c2] i by (cases "?s = []") (auto simp: defaultConfig_def)
  have sint_default: "0 < sint (10 * second)" by (simp add: second_def)
  have "AttemptTimeout c2 = 10 * second" by (simp add: m i defaultConfig_def)
  then obtain a where a: "c3 = c2\<lparr>AttemptTimeout := a\<rparr>" "0 < sint a"
      "Getenv env ''MODBUS_ATTEMPT_TIMEOUT'' \<noteq> [] \<longrightarrow> Getenv env ''MODBUS_TIMEOUT'' \<noteq> [] \<longrightarrow>
       P (Getenv env ''MODBUS_ATTEMPT_TIMEOUT'') = P (Getenv env ''MODBUS_TIMEOUT'')"
    using attemptTimeoutSetting_cases [OF c3] sint_default by metis
  define rt where "rt = (case rt0 of Some d \<Rightarrow> d | None \<Rightarrow> 30 * second)"
  have "0 < sint rt" using parsePositiveDuration_cases [OF rt] by (auto simp: rt_def second_def split: option.split)
  moreover have "cfg = (defaultConfig env)\<lparr>DefaultSlaveID := i, CacheTTL := t,
      CacheServeStale := (?s \<noteq> [] \<and> ToLower ?s = ''true''), ReadOnly := m,
      AttemptTimeout := a, RequestTimeout := rt, RequestDelay := rd, ConnectDelay := cd, ShutdownTimeout := sd\<rparr>"
    by (simp add: cfg a(1) m(1) i rt_def defaultConfig_def split: option.split)
  ultimately show ?thesis using that m(2) a(2,3) up by (simp add: defaultConfig_def)
qed

subsection \<open>Properties\<close>

text \<open>
  C37: Every accepted configuration is usable: an upstream address is set, the attempt timeout
  and the request timeout are positive, writes are only forwarded when the environment asks for
  it explicitly, and when both spellings of the attempt timeout are given they agree.
\<close>

theorem Load_guarantees:
  assumes "Load ParseDuration env = Inr cfg"
  shows "Upstream cfg \<noteq> [] \<and> 0 < sint (AttemptTimeout cfg) \<and> 0 < sint (RequestTimeout cfg) \<and>
    (ReadOnly cfg = ReadOnlyOff \<longrightarrow> ToLower (Getenv env ''MODBUS_READONLY'') = ''false'') \<and>
    (Getenv env ''MODBUS_ATTEMPT_TIMEOUT'' \<noteq> [] \<longrightarrow> Getenv env ''MODBUS_TIMEOUT'' \<noteq> [] \<longrightarrow>
       ParseDuration (Getenv env ''MODBUS_ATTEMPT_TIMEOUT'') =
       ParseDuration (Getenv env ''MODBUS_TIMEOUT''))"
proof -
  show ?thesis by (rule Load_parts [OF assms]) (auto simp: defaultConfig_def)
qed

theorem Load_guarantees_witness:
  "\<exists>cfg. Load (\<lambda>s. Inr (5 * second)) [''MODBUS_UPSTREAM'' \<mapsto> ''dev:502'', ''MODBUS_READONLY'' \<mapsto> ''FALSE'',
      ''MODBUS_TIMEOUT'' \<mapsto> ''5s''] = Inr cfg \<and> ReadOnly cfg = ReadOnlyOff \<and> 0 < sint (AttemptTimeout cfg)"
proof -
  let ?env = "[''MODBUS_UPSTREAM'' \<mapsto> ''dev:502'', ''MODBUS_READONLY'' \<mapsto> ''FALSE'', ''MODBUS_TIMEOUT'' \<mapsto> ''5s'']"
  let ?cfg = "(defaultConfig ?env)\<lparr>ReadOnly := ReadOnlyOff, AttemptTimeout := 5 * second\<rparr>"
  have "ToLower ''FALSE'' = ''false''" by code_simp
  moreover have "\<not> 5 * second \<le>s 0" by (simp add: second_def word_sle_eq)
  ultimately have "Load (\<lambda>s. Inr (5 * second)) ?env = Inr ?cfg"
    by (simp add: Load_def Let_def defaultConfig_def Getenv_def GetEnv_def parseSlaveID_def parseReadOnly_def
        parseDurationSetting_def attemptTimeoutSetting_def parsePositiveDuration_def del: ToLower.simps)
  from this Load_guarantees [OF this] show ?thesis by (intro exI [of _ ?cfg]) simp
qed

text \<open>
  With nothing set but the upstream address the proxy runs with the documented defaults:
  port 5502, ten seconds of caching, no stale serving, writes ignored, ten seconds per attempt,
  thirty per request, no delays.
\<close>

lemma Load_defaults:
  assumes "u \<noteq> []"
  shows "Load ParseDuration [''MODBUS_UPSTREAM'' \<mapsto> u] =
    Inr \<lparr>Listen = '':5502'', Upstream = u, DefaultSlaveID = 1, CacheTTL = 10 * second,
      CacheServeStale = False, ReadOnly = ReadOnlyOn, AttemptTimeout = 10 * second,
      RequestTimeout = 30 * second, RequestDelay = 0, ConnectDelay = 0,
      ShutdownTimeout = 30 * second, HealthListen = [], LogLevel = ''INFO''\<rparr>"
  using assms
  by (simp add: Load_def Let_def defaultConfig_def Getenv_def GetEnv_def parseSlaveID_def parseReadOnly_def
      parseDurationSetting_def attemptTimeoutSetting_def parsePositiveDuration_def)

text \<open>
  A slave id setting is accepted exactly when it is a decimal numeral of at most 255; every
  byte value can be set, and nothing wraps around.
\<close>

lemma slave_id_setting:
  assumes "env ''MODBUS_SLAVE_ID'' = Some s" and "s \<noteq> []"
  shows "(\<forall>n \<le> 255. s = fmt_d n \<longrightarrow>
      parseSlaveID env cfg = Inr (cfg\<lparr>DefaultSlaveID := of_nat n\<rparr>)) \<and>
    (\<forall>cfg'. parseSlaveID env cfg = Inr cfg' \<longrightarrow>
      (\<forall>c \<in> set s. \<exists>d < 10. c = digit_char d) \<and>
      unat (DefaultSlaveID cfg') = foldl (\<lambda>n c. 10 * n + (of_char c - 48)) 0 s)"
proof -
  have dig: "\<exists>d < 10. c = digit_char d" if "48 \<le> (of_char c :: nat)" "(of_char c :: nat) \<le> 57" for c
    using that by (intro exI [of _ "of_char c - 48"]) (auto simp: digit_char_def)
  have p: "parseSlaveID env cfg = (case parseDigits 0 s of
      Inl e \<Rightarrow> Inl (Wrap ''invalid MODBUS_SLAVE_ID'' (Wrap ''strconv.ParseUint'' e))
    | Inr n \<Rightarrow> Inr (cfg\<lparr>DefaultSlaveID := of_nat n\<rparr>))"
    using assms by (simp add: parseSlaveID_def Getenv_def ParseUint8_def split: sum.split)
  have "unat (of_nat n :: byte) = n" if "n \<le> 255" for n using that by (simp add: unat_of_nat)
  then show ?thesis unfolding p using assms(2)
    by (auto simp: parseDigits_fmt_d parseDigits_Inr dig split: sum.splits)
qed

end
