(* ===== verification/Modbus_Frame.thy ===== *)
theory Modbus_Frame
  imports Go_Errors
begin

text \<open>
  The Modbus TCP wire format of \<^verbatim>\<open>internal/modbus/server.go\<close>: function codes,
  the request record, reading a request from a connection (\<open>readRequest\<close>, \<open>parsePDU\<close>),
  framing a response (\<open>writeResponse\<close>), exception responses. The lemmas show that parsing
  never panics on what \<open>readRequest\<close> hands to it, that it inverts the standard encoding of a
  request, and what every parsed request satisfies.
\<close>

subsection \<open>Function codes\<close>

definition FuncReadCoils :: byte where [mb_consts]: "FuncReadCoils = 0x01"
definition FuncReadDiscreteInputs :: byte where [mb_consts]: "FuncReadDiscreteInputs = 0x02"
definition FuncReadHoldingRegisters :: byte where [mb_consts]: "FuncReadHoldingRegisters = 0x03"
definition FuncReadInputRegisters :: byte where [mb_consts]: "FuncReadInputRegisters = 0x04"
definition FuncWriteSingleCoil :: byte where [mb_consts]: "FuncWriteSingleCoil = 0x05"
definition FuncWriteSingleRegister :: byte where [mb_consts]: "FuncWriteSingleRegister = 0x06"
definition FuncWriteMultipleCoils :: byte where [mb_consts]: "FuncWriteMultipleCoils = 0x0F"
definition FuncWriteMultipleRegs :: byte where [mb_consts]: "FuncWriteMultipleRegs = 0x10"

definition IsWriteFunction :: "byte \<Rightarrow> bool" where
  "IsWriteFunction fc \<longleftrightarrow> fc = FuncWriteSingleCoil \<or> fc = FuncWriteSingleRegister \<or>
     fc = FuncWriteMultipleCoils \<or> fc = FuncWriteMultipleRegs"

definition IsReadFunction :: "byte \<Rightarrow> bool" where
  "IsReadFunction fc \<longleftrightarrow> fc = FuncReadCoils \<or> fc = FuncReadDiscreteInputs \<or>
     fc = FuncReadHoldingRegisters \<or> fc = FuncReadInputRegisters"

subsection \<open>Requests\<close>

definition mbapHeaderSize :: nat where [mb_consts]: "mbapHeaderSize = 7"

record request =
  TransactionID :: u16
  SlaveID :: byte
  FunctionCode :: byte
  Address :: u16
  Quantity :: u16
  reqData :: bytes
  PDU :: bytes

text \<open>
  \<open>parsePDU\<close> fills the request from the PDU. The upper bound of the last slice is computed in
  \<^verbatim>\<open>byte\<close> arithmetic (\<^verbatim>\<open>6+byteCount\<close>) and may wrap around; the slice
  then panics.
\<close>

definition parsePDU :: "request \<Rightarrow> bytes \<Rightarrow> (goerror + request) go" where
  "parsePDU req0 pdu =
     (let req = req0\<lparr>PDU := pdu\<rparr>; fc = FunctionCode req in
      if IsReadFunction fc then
        (if length pdu < 5 then Returns (Inl (Plain ''pdu too short for read request''))
         else Returns (Inr (req\<lparr>Address := Uint16 (take 2 (drop 1 pdu)),
                                Quantity := Uint16 (take 2 (drop 3 pdu))\<rparr>)))
      else if fc = FuncWriteSingleCoil \<or> fc = FuncWriteSingleRegister then
        (if length pdu < 5 then Returns (Inl (Plain ''pdu too short for write single request''))
         else Returns (Inr (req\<lparr>Address := Uint16 (take 2 (drop 1 pdu)), Quantity := 1,
                                reqData := take 2 (drop 3 pdu)\<rparr>)))
      else if fc = FuncWriteMultipleCoils \<or> fc = FuncWriteMultipleRegs then
        (if length pdu < 6 then Returns (Inl (Plain ''pdu too short for write multiple request''))
         else
           let byteCount = pdu ! 5 in
           if length pdu < 6 + unat byteCount
           then Returns (Inl (Plain ''pdu too short for write data''))
           else (case slice pdu 6 (unat (6 + byteCount)) of
                   Panics \<Rightarrow> Panics
                 | Returns d \<Rightarrow>
                     Returns (Inr (req\<lparr>Address := Uint16 (take 2 (drop 1 pdu)),
                                       Quantity := Uint16 (take 2 (drop 3 pdu)),
                                       reqData := d\<rparr>))))
      else Returns (Inr req))"

text \<open>
  A client connection as the reader sees it: the bytes that will arrive and the error the
  connection reports once they are used up (end of file, read deadline, closed).
  \<open>ReadFull\<close> is \<^verbatim>\<open>io.ReadFull\<close>.
\<close>

record conn_in =
  inbuf :: bytes
  inerr :: goerror

definition ReadFull :: "nat \<Rightarrow> conn_in \<Rightarrow> (goerror + bytes) \<times> conn_in" where
  "ReadFull n c =
     (if n \<le> length (inbuf c)
      then (Inr (take n (inbuf c)), c\<lparr>inbuf := drop n (inbuf c)\<rparr>)
      else (Inl (if inbuf c \<noteq> [] \<and> inerr c = EOF then UnexpectedEOF else inerr c),
            c\<lparr>inbuf := []\<rparr>))"

definition readRequest :: "conn_in \<Rightarrow> ((goerror + request) \<times> conn_in) go" where
  "readRequest conn =
     (case ReadFull mbapHeaderSize conn of
        (Inl err, c) \<Rightarrow> Returns (Inl err, c)
      | (Inr header, c) \<Rightarrow>
          let transactionID = Uint16 (take 2 header);
              protocolID = Uint16 (take 2 (drop 2 header));
              len = Uint16 (take 2 (drop 4 header));
              slaveID = header ! 6
          in
          if protocolID \<noteq> 0
          then Returns (Inl (Plain (''invalid protocol id: '' @ fmt_d (unat protocolID))), c)
          else
            let pduLen = int (unat len) - 1 in
            if pduLen < 1 \<or> pduLen > 253
            then Returns (Inl (Plain (''invalid pdu length: '' @ fmt_i pduLen)), c)
            else
              (case ReadFull (nat pduLen) c of
                 (Inl err, c') \<Rightarrow> Returns (Inl err, c')
               | (Inr pdu, c') \<Rightarrow>
                   (case parsePDU \<lparr>TransactionID = transactionID, SlaveID = slaveID,
                                   FunctionCode = pdu ! 0, Address = 0, Quantity = 0,
                                   reqData = [], PDU = []\<rparr> pdu of
                      Panics \<Rightarrow> Panics
                    | Returns r \<Rightarrow> Returns (r, c'))))"

subsection \<open>Responses\<close>

text \<open>The bytes that \<^verbatim>\<open>writeResponse\<close> passes to \<^verbatim>\<open>conn.Write\<close>.\<close>

definition writeResponse :: "u16 \<Rightarrow> byte \<Rightarrow> bytes \<Rightarrow> bytes" where
  "writeResponse transactionID slaveID pdu =
     PutUint16 transactionID @ PutUint16 0 @ PutUint16 (of_nat (length pdu + 1)) @ slaveID # pdu"

definition BuildExceptionResponse :: "byte \<Rightarrow> byte \<Rightarrow> bytes" where
  "BuildExceptionResponse functionCode exceptionCode = [functionCode OR 0x80, exceptionCode]"

definition buildExceptionResponse :: "request \<Rightarrow> byte \<Rightarrow> bytes" where
  "buildExceptionResponse req exceptionCode = [FunctionCode req OR 0x80, exceptionCode]"

subsection \<open>What a client sends\<close>

text \<open>
  The Modbus application protocol's encoding of a request PDU and its MBAP frame, written from
  the client's side: the specification that parsing is measured against.
\<close>

definition encodePDU :: "request \<Rightarrow> bytes" where
  "encodePDU r =
     (let fc = FunctionCode r in
      if IsReadFunction fc then fc # PutUint16 (Address r) @ PutUint16 (Quantity r)
      else if fc = FuncWriteSingleCoil \<or> fc = FuncWriteSingleRegister
      then fc # PutUint16 (Address r) @ reqData r
      else if fc = FuncWriteMultipleCoils \<or> fc = FuncWriteMultipleRegs
      then fc # PutUint16 (Address r) @ PutUint16 (Quantity r) @
             of_nat (length (reqData r)) # reqData r
      else PDU r)"

definition encodeRequest :: "request \<Rightarrow> bytes" where
  "encodeRequest r = writeResponse (TransactionID r) (SlaveID r) (encodePDU r)"

text \<open>
  \<open>wf_request\<close>: the shape of a request as the parser builds it from a complete PDU without
  trailing bytes.
\<close>

definition wf_request :: "request \<Rightarrow> bool" where
  "wf_request r \<longleftrightarrow>
     PDU r = encodePDU r \<and> PDU r \<noteq> [] \<and> length (PDU r) \<le> 253 \<and> PDU r ! 0 = FunctionCode r \<and>
     (if IsReadFunction (FunctionCode r) then reqData r = []
      else if FunctionCode r = FuncWriteSingleCoil \<or> FunctionCode r = FuncWriteSingleRegister
      then Quantity r = 1 \<and> length (reqData r) = 2
      else if FunctionCode r = FuncWriteMultipleCoils \<or> FunctionCode r = FuncWriteMultipleRegs
      then length (reqData r) \<le> 247
      else Address r = 0 \<and> Quantity r = 0 \<and> reqData r = [])"

subsection \<open>Lemmas\<close>

lemma read_not_write: "IsReadFunction fc \<Longrightarrow> \<not> IsWriteFunction fc"
  by (auto simp: IsReadFunction_def IsWriteFunction_def mb_consts)

lemma PutUint16_Cons: "\<exists>a b. PutUint16 v = [a, b] \<and> Uint16 [a, b] = v"
proof -
  have "PutUint16 v = [ucast (drop_bit 8 v), ucast v]" by (simp add: PutUint16_def)
  then show ?thesis using Uint16_PutUint16 [of v] by metis
qed

lemma Uint16_zero: "PutUint16 0 = [0, 0]" "Uint16 [0, 0] = 0"
  by (simp_all add: PutUint16_def Uint16_def)

text \<open>
  The wrap-around in the slice bound is out of reach as long as the PDU has at most 253 bytes:
  a byte count the length check accepts is then at most 247.
\<close>

lemma parsePDU_no_panic:
  assumes "length pdu \<le> 253"
  shows "parsePDU r pdu \<noteq> Panics"
proof -
  have "unat (6 + b) = 6 + unat b" if "6 + unat b \<le> length pdu" for b :: byte
    using that assms by (simp add: unat_word_ariths)
  then show ?thesis
    by (auto simp: parsePDU_def Let_def slice_def split: if_splits)
qed

lemma readRequest_no_panic: "readRequest c \<noteq> Panics"
proof -
  have "length (take n xs) \<le> 253" if "n \<le> 253" for n and xs :: bytes
    using that by simp
  then show ?thesis
    by (auto simp: readRequest_def ReadFull_def Let_def parsePDU_no_panic split: go.split
        dest!: parsePDU_no_panic [rotated])
qed

lemma parsePDU_fields:
  assumes "parsePDU r0 pdu = Returns (Inr r)"
  shows "PDU r = pdu \<and> TransactionID r = TransactionID r0 \<and> SlaveID r = SlaveID r0 \<and>
    FunctionCode r = FunctionCode r0"
  using assms by (auto simp: parsePDU_def Let_def split: if_splits go.splits)

text \<open>What the proxy may rely on about the fields of a parsed request.\<close>

definition parsed_request :: "request \<Rightarrow> bool" where
  "parsed_request r \<longleftrightarrow>
     PDU r \<noteq> [] \<and> length (PDU r) \<le> 253 \<and> PDU r ! 0 = FunctionCode r \<and>
     (IsReadFunction (FunctionCode r) \<longrightarrow>
        5 \<le> length (PDU r) \<and> reqData r = [] \<and> Quantity r = Uint16 (take 2 (drop 3 (PDU r)))) \<and>
     (FunctionCode r = FuncWriteSingleCoil \<or> FunctionCode r = FuncWriteSingleRegister \<longrightarrow>
        5 \<le> length (PDU r) \<and> Quantity r = 1 \<and> reqData r = take 2 (drop 3 (PDU r))) \<and>
     (FunctionCode r = FuncWriteMultipleCoils \<or> FunctionCode r = FuncWriteMultipleRegs \<longrightarrow>
        6 + unat (PDU r ! 5) \<le> length (PDU r) \<and> reqData r = take (unat (PDU r ! 5)) (drop 6 (PDU r)) \<and>
        Quantity r = Uint16 (take 2 (drop 3 (PDU r)))) \<and>
     (IsReadFunction (FunctionCode r) \<or> IsWriteFunction (FunctionCode r) \<longrightarrow>
        Address r = Uint16 (take 2 (drop 1 (PDU r))))"

lemma parsePDU_parsed:
  assumes "parsePDU r0 pdu = Returns (Inr r)" and "pdu \<noteq> []" and "length pdu \<le> 253"
    and "FunctionCode r0 = pdu ! 0" and "reqData r0 = []"
  shows "parsed_request r"
proof -
  have wrap: "unat (6 + b) = 6 + unat b" if "6 + unat b \<le> length pdu" for b :: byte
    using that assms(3) by (simp add: unat_word_ariths)
  show ?thesis
    using assms wrap [of "pdu ! 5"]
    by (auto simp: parsePDU_def parsed_request_def Let_def slice_def IsReadFunction_def
        IsWriteFunction_def mb_consts split: if_splits)
qed

lemma list7: "length xs = 7 \<Longrightarrow> \<exists>a b c d e f g. xs = [a, b, c, d, e, f, g]"
  by (auto simp: eval_nat_numeral length_Suc_conv)

text \<open>A successful read, taken apart; the length field counts the slave id and the PDU.\<close>

lemma readRequest_split:
  assumes "readRequest c = Returns (Inr r, c')"
  obtains h pdu where "inbuf c = h @ pdu @ inbuf c'" and "length h = 7" and "inerr c' = inerr c"
    and "Uint16 (take 2 (drop 2 h)) = 0"
    and "unat (Uint16 (take 2 (drop 4 h))) = length pdu + 1" and "pdu \<noteq> []" and "length pdu \<le> 253"
    and "parsePDU \<lparr>TransactionID = Uint16 (take 2 h), SlaveID = h ! 6, FunctionCode = pdu ! 0,
       Address = 0, Quantity = 0, reqData = [], PDU = []\<rparr> pdu = Returns (Inr r)"
proof -
  let ?l = "Uint16 (take 2 (drop 4 (take 7 (inbuf c))))"
  obtain c1 where c1: "7 \<le> length (inbuf c)" "c1 = c\<lparr>inbuf := drop 7 (inbuf c)\<rparr>"
    "Uint16 (take 2 (drop 2 (take 7 (inbuf c)))) = 0"
    "\<not> int (unat ?l) - 1 < 1" "\<not> int (unat ?l) - 1 > 253"
    and rest: "(case ReadFull (nat (int (unat ?l) - 1)) c1 of
                 (Inl err, c') \<Rightarrow> Returns (Inl err, c')
               | (Inr pdu, c') \<Rightarrow>
                   (case parsePDU \<lparr>TransactionID = Uint16 (take 2 (take 7 (inbuf c))),
                       SlaveID = take 7 (inbuf c) ! 6, FunctionCode = pdu ! 0,
                       Address = 0, Quantity = 0, reqData = [], PDU = []\<rparr> pdu of
                      Panics \<Rightarrow> Panics
                    | Returns r \<Rightarrow> Returns (r, c'))) = Returns (Inr r, c')"
    using assms unfolding readRequest_def ReadFull_def mbapHeaderSize_def Let_def
    by (simp split: if_splits del: take_take drop_take nth_take)
  define n where "n = nat (int (unat ?l) - 1)"
  have n: "unat ?l = n + 1" "1 \<le> n" "n \<le> 253" using c1(4,5) unfolding n_def by arith+
  have len: "n \<le> length (inbuf c1)"
    using rest unfolding n_def [symmetric] ReadFull_def by (auto split: if_splits)
  show ?thesis
  proof (rule that [of "take 7 (inbuf c)" "take n (inbuf c1)"])
    show "parsePDU \<lparr>TransactionID = Uint16 (take 2 (take 7 (inbuf c))),
        SlaveID = take 7 (inbuf c) ! 6, FunctionCode = take n (inbuf c1) ! 0,
        Address = 0, Quantity = 0, reqData = [], PDU = []\<rparr> (take n (inbuf c1)) = Returns (Inr r)"
      and "inerr c' = inerr c"
      using rest len unfolding n_def [symmetric] ReadFull_def
      by (auto simp: c1(2) split: go.splits)
    have "inbuf c' = drop n (inbuf c1)"
      using rest len unfolding n_def [symmetric] ReadFull_def by (auto split: go.splits)
    then have "take n (inbuf c1) @ inbuf c' = drop 7 (inbuf c)"
      using append_take_drop_id [of n "inbuf c1"] by (simp add: c1(2) del: append_take_drop_id)
    then show "inbuf c = take 7 (inbuf c) @ take n (inbuf c1) @ inbuf c'" by simp
  qed (use c1 n len in auto)
qed

text \<open>
  The bytes a successful read consumes are the frame of the request it returns.
\<close>

lemma readRequest_frame:
  assumes "readRequest c = Returns (Inr r, c')"
  shows "inbuf c = writeResponse (TransactionID r) (SlaveID r) (PDU r) @ inbuf c'"
    and "inerr c' = inerr c" and "parsed_request r"
proof -
  obtain h pdu where h: "inbuf c = h @ pdu @ inbuf c'" "length h = 7" "inerr c' = inerr c"
      "Uint16 (take 2 (drop 2 h)) = 0" "unat (Uint16 (take 2 (drop 4 h))) = length pdu + 1"
      "pdu \<noteq> []" "length pdu \<le> 253"
    and p: "parsePDU \<lparr>TransactionID = Uint16 (take 2 h), SlaveID = h ! 6, FunctionCode = pdu ! 0,
       Address = 0, Quantity = 0, reqData = [], PDU = []\<rparr> pdu = Returns (Inr r)"
    using assms by (rule readRequest_split)
  obtain a b x y l m g where hs: "h = [a, b, x, y, l, m, g]" using list7 h(2) by blast
  have r: "PDU r = pdu" "TransactionID r = Uint16 [a, b]" "SlaveID r = g"
    using parsePDU_fields [OF p] hs by auto
  have "of_nat (length pdu + 1) = Uint16 [l, m]"
    by (rule word_unat_eq_iff [THEN iffD2])
      (use h(5,7) hs in \<open>simp add: unat_of_nat del: of_nat_add of_nat_Suc\<close>)
  moreover have "[x, y] = PutUint16 0"
    using h(4) hs PutUint16_Uint16 [of x y] by simp
  ultimately have "writeResponse (TransactionID r) (SlaveID r) (PDU r) = h @ pdu"
    by (simp add: writeResponse_def r hs PutUint16_Uint16)
  then show "inbuf c = writeResponse (TransactionID r) (SlaveID r) (PDU r) @ inbuf c'"
    using h(1) by simp
  show "inerr c' = inerr c" by (rule h(3))
  show "parsed_request r" using parsePDU_parsed [OF p] h by simp
qed

text \<open>Reading a well-formed frame is parsing its PDU.\<close>

lemma readRequest_writeResponse:
  assumes "pdu \<noteq> []" and "length pdu \<le> 253"
  shows "readRequest \<lparr>inbuf = writeResponse tid sid pdu @ rest, inerr = e\<rparr> =
    (case parsePDU \<lparr>TransactionID = tid, SlaveID = sid, FunctionCode = pdu ! 0, Address = 0,
         Quantity = 0, reqData = [], PDU = []\<rparr> pdu of
       Panics \<Rightarrow> Panics | Returns x \<Rightarrow> Returns (x, \<lparr>inbuf = rest, inerr = e\<rparr>))"
proof -
  obtain a b where tid: "PutUint16 tid = [a, b]" "Uint16 [a, b] = tid"
    using PutUint16_Cons by blast
  define v :: u16 where "v = of_nat (length pdu + 1)"
  obtain l m where len: "PutUint16 v = [l, m]" "Uint16 [l, m] = v"
    using PutUint16_Cons by blast
  have v: "unat v = length pdu + 1"
    using assms(2) by (simp add: v_def unat_of_nat del: of_nat_add of_nat_Suc)
  have w: "writeResponse tid sid pdu @ rest = [a, b, 0, 0, l, m, sid] @ pdu @ rest"
    unfolding writeResponse_def v_def [symmetric] by (simp add: tid(1) Uint16_zero(1) len(1))
  have n: "nat (int (unat v) - 1) = length pdu" and bounds: "1 \<le> length pdu"
    using v assms(1) by (auto simp: Suc_le_eq)
  show ?thesis
    unfolding w using assms bounds n v
    by (simp add: readRequest_def ReadFull_def mb_consts tid(2) len(2) Uint16_zero(2)
        del: of_nat_unat)
qed

lemma byte_count:
  "n \<le> 247 \<Longrightarrow> unat (of_nat n :: byte) = n" "n \<le> 247 \<Longrightarrow> unat (6 + of_nat n :: byte) = 6 + n"
  by (simp_all add: unat_word_ariths unat_of_nat)

lemma parsePDU_encodePDU:
  assumes "wf_request r"
  shows "parsePDU \<lparr>TransactionID = TransactionID r, SlaveID = SlaveID r,
    FunctionCode = PDU r ! 0, Address = 0, Quantity = 0, reqData = [], PDU = []\<rparr> (PDU r) =
    Returns (Inr r)"
proof -
  obtain a b where ad: "PutUint16 (Address r) = [a, b]" "Uint16 [a, b] = Address r"
    using PutUint16_Cons by blast
  obtain x y where qt: "PutUint16 (Quantity r) = [x, y]" "Uint16 [x, y] = Quantity r"
    using PutUint16_Cons by blast
  note wf = assms [unfolded wf_request_def]
  consider "IsReadFunction (FunctionCode r)"
    | "FunctionCode r = FuncWriteSingleCoil \<or> FunctionCode r = FuncWriteSingleRegister"
    | "FunctionCode r = FuncWriteMultipleCoils \<or> FunctionCode r = FuncWriteMultipleRegs"
    | "\<not> IsReadFunction (FunctionCode r)" "\<not> IsWriteFunction (FunctionCode r)"
    by (auto simp: IsWriteFunction_def)
  then show ?thesis
  proof cases
    case 1
    then have "PDU r = [FunctionCode r, a, b, x, y]" using wf by (simp add: encodePDU_def ad qt)
    then show ?thesis using 1 wf by (simp add: parsePDU_def ad qt Let_def)
  next
    case 2
    then have nr: "\<not> IsReadFunction (FunctionCode r)"
      by (auto simp: IsReadFunction_def mb_consts)
    then have "PDU r = [FunctionCode r, a, b] @ reqData r" using 2 wf
      by (simp add: encodePDU_def ad)
    then show ?thesis using 2 nr wf by (simp add: parsePDU_def ad Let_def)
  next
    case 3
    then have nr: "\<not> IsReadFunction (FunctionCode r)" "FunctionCode r \<noteq> FuncWriteSingleCoil"
      "FunctionCode r \<noteq> FuncWriteSingleRegister"
      by (auto simp: IsReadFunction_def mb_consts)
    then have "PDU r = [FunctionCode r, a, b, x, y, of_nat (length (reqData r))] @ reqData r"
      using 3 wf by (simp add: encodePDU_def ad qt)
    then show ?thesis using 3 nr wf byte_count
      by (simp add: parsePDU_def ad qt Let_def slice_def)
  next
    case 4
    then have "PDU r ! 0 = FunctionCode r" "Address r = 0" "Quantity r = 0" "reqData r = []"
      using wf by (auto simp: IsWriteFunction_def)
    then show ?thesis using 4 by (simp add: parsePDU_def Let_def IsWriteFunction_def)
  qed
qed

lemma readRequest_encoded:
  assumes "wf_request r"
  shows "readRequest \<lparr>inbuf = encodeRequest r @ rest, inerr = e\<rparr> =
    Returns (Inr r, \<lparr>inbuf = rest, inerr = e\<rparr>)"
proof -
  have r: "PDU r = encodePDU r" "PDU r \<noteq> []" "length (PDU r) \<le> 253"
    using assms by (auto simp: wf_request_def)
  have "readRequest \<lparr>inbuf = encodeRequest r @ rest, inerr = e\<rparr> =
    (case parsePDU \<lparr>TransactionID = TransactionID r, SlaveID = SlaveID r,
       FunctionCode = PDU r ! 0, Address = 0, Quantity = 0, reqData = [], PDU = []\<rparr> (PDU r) of
       Panics \<Rightarrow> Panics | Returns x \<Rightarrow> Returns (x, \<lparr>inbuf = rest, inerr = e\<rparr>))"
    unfolding encodeRequest_def r(1) [symmetric] using r(2,3) by (rule readRequest_writeResponse)
  then show ?thesis by (simp add: parsePDU_encodePDU [OF assms])
qed

subsection \<open>Properties\<close>

text \<open>
  C8: Reading a request inverts sending it. For every well-formed request the server reads back
  exactly the request a client encoded, and leaves the connection at the first byte after it.
\<close>

theorem request_roundtrip:
  assumes "wf_request r"
  shows "readRequest \<lparr>inbuf = encodeRequest r @ rest, inerr = e\<rparr> =
    Returns (Inr r, \<lparr>inbuf = rest, inerr = e\<rparr>)"
  using assms by (rule readRequest_encoded)

theorem request_roundtrip_witness:
  "readRequest \<lparr>inbuf = [0, 7, 0, 0, 0, 6, 1, 3, 0, 100, 0, 2, 99], inerr = EOF\<rparr> =
     Returns (Inr \<lparr>TransactionID = 7, SlaveID = 1, FunctionCode = 3, Address = 100, Quantity = 2,
       reqData = [], PDU = [3, 0, 100, 0, 2]\<rparr>, \<lparr>inbuf = [99], inerr = EOF\<rparr>)"
  using request_roundtrip [of "\<lparr>TransactionID = 7, SlaveID = 1, FunctionCode = 3, Address = 100,
      Quantity = 2, reqData = [], PDU = [3, 0, 100, 0, 2]\<rparr>" "[99]" EOF]
  by (simp add: wf_request_def encodeRequest_def encodePDU_def writeResponse_def PutUint16_def
      IsReadFunction_def mb_consts)

text \<open>
  Whatever bytes a client sends, reading a request does not panic. A request it accepts was
  framed by exactly the bytes it consumed (the same frame \<open>writeResponse\<close> would produce for its
  ids and PDU), and its fields agree with its PDU.
\<close>

lemma readRequest_safe:
  "\<exists>res c'. readRequest c = Returns (res, c') \<and>
     (\<forall>r. res = Inr r \<longrightarrow>
        inbuf c = writeResponse (TransactionID r) (SlaveID r) (PDU r) @ inbuf c' \<and> parsed_request r)"
proof (cases "readRequest c")
  case (Returns p)
  then show ?thesis using readRequest_frame by (cases p) fastforce
next
  case Panics
  then show ?thesis using readRequest_no_panic by simp
qed

end
