(* ===== verification/Modbus_Validate.thy ===== *)
theory Modbus_Validate
  imports Modbus_Frame
begin

text \<open>
  \<^verbatim>\<open>ValidateRequest\<close> of \<^verbatim>\<open>internal/modbus/client.go\<close>: the local Modbus
  constraints that are checked before a request touches the cache or the wire. The abstract
  predicate \<open>valid_request\<close> states the same constraints over natural numbers; the lemmas show
  that the two agree, what a rejected request is answered with, and that no address or byte
  arithmetic on an accepted request wraps around.
\<close>

text \<open>A nil request pointer is \<open>None\<close>; a nil error is \<open>None\<close>.\<close>

definition ValidateRequest :: "request option \<Rightarrow> goerror option" where
  "ValidateRequest reqp = (case reqp of
     None \<Rightarrow> Some (Plain ''request is nil'')
   | Some req \<Rightarrow>
     (let fc = FunctionCode req; q = unat (Quantity req);
          range_check =
            (if unat (Address req) + q > 65536
             then Some (newValidationError ExcIllegalAddress ''address range exceeds 0xFFFF'')
             else None);
          bad_quantity = (\<lambda>m. Some (newValidationError ExcIllegalValue
            (''quantity '' @ fmt_d q @ '' must be between 1 and '' @ fmt_d m)));
          bad_length = (\<lambda>expected. Some (newValidationError ExcIllegalValue
            (''write data has '' @ fmt_d (length (reqData req)) @ '' bytes, expected '' @
             fmt_d expected)))
      in
      if fc = FuncReadCoils \<or> fc = FuncReadDiscreteInputs then
        (if q < 1 \<or> q > 2000 then bad_quantity 2000 else range_check)
      else if fc = FuncReadHoldingRegisters \<or> fc = FuncReadInputRegisters then
        (if q < 1 \<or> q > 125 then bad_quantity 125 else range_check)
      else if fc = FuncWriteSingleCoil then
        (if length (reqData req) < 2
         then Some (newValidationError ExcIllegalValue ''write data requires 2 bytes'')
         else let value = Uint16 (reqData req) in
           if value \<noteq> 0x0000 \<and> value \<noteq> 0xFF00
           then Some (newValidationError ExcIllegalValue
             (''coil value 0x'' @ fmt_0X 4 (unat value) @ '' must be 0x0000 or 0xFF00''))
           else range_check)
      else if fc = FuncWriteSingleRegister then
        (if length (reqData req) < 2
         then Some (newValidationError ExcIllegalValue ''write data requires 2 bytes'')
         else range_check)
      else if fc = FuncWriteMultipleCoils then
        (if q < 1 \<or> q > 1968 then bad_quantity 1968
         else let expected = unat (Quantity req + 7) div 8 in
           if length (reqData req) \<noteq> expected then bad_length expected else range_check)
      else if fc = FuncWriteMultipleRegs then
        (if q < 1 \<or> q > 123 then bad_quantity 123
         else let expected = q * 2 in
           if length (reqData req) \<noteq> expected then bad_length expected else range_check)
      else if length (PDU req) < 1
        then Some (newValidationError ExcIllegalFunction
          (''missing pdu for function code: 0x'' @ fmt_0X 2 (unat fc)))
      else if PDU req ! 0 \<noteq> fc
        then Some (newValidationError ExcIllegalFunction
          (''pdu function code 0x'' @ fmt_0X 2 (unat (PDU req ! 0)) @
           '' does not match request 0x'' @ fmt_0X 2 (unat fc)))
      else None))"

subsection \<open>The constraints as a predicate\<close>

definition max_quantity :: "byte \<Rightarrow> nat" where
  "max_quantity fc =
     (if fc = FuncReadCoils \<or> fc = FuncReadDiscreteInputs then 2000
      else if fc = FuncReadHoldingRegisters \<or> fc = FuncReadInputRegisters then 125
      else if fc = FuncWriteMultipleCoils then 1968
      else if fc = FuncWriteMultipleRegs then 123
      else 65535)"

definition valid_request :: "request \<Rightarrow> bool" where
  "valid_request r \<longleftrightarrow>
     (let fc = FunctionCode r; q = unat (Quantity r); d = length (reqData r) in
      (if IsReadFunction fc then 1 \<le> q \<and> q \<le> max_quantity fc \<and> unat (Address r) + q \<le> 65536
       else if fc = FuncWriteSingleCoil
       then 2 \<le> d \<and> Uint16 (reqData r) \<in> {0, 0xFF00} \<and> unat (Address r) + q \<le> 65536
       else if fc = FuncWriteSingleRegister then 2 \<le> d \<and> unat (Address r) + q \<le> 65536
       else if fc = FuncWriteMultipleCoils
       then 1 \<le> q \<and> q \<le> 1968 \<and> d = (q + 7) div 8 \<and> unat (Address r) + q \<le> 65536
       else if fc = FuncWriteMultipleRegs
       then 1 \<le> q \<and> q \<le> 123 \<and> d = 2 * q \<and> unat (Address r) + q \<le> 65536
       else PDU r \<noteq> [] \<and> PDU r ! 0 = fc))"

subsection \<open>Lemmas\<close>

lemma unat_plus7: "unat q \<le> 1968 \<Longrightarrow> unat (q + 7 :: u16) = unat q + 7"
  by (simp add: unat_word_ariths)

lemma ValidateRequest_iff: "ValidateRequest (Some r) = None \<longleftrightarrow> valid_request r"
  unfolding ValidateRequest_def valid_request_def Let_def
  by (auto simp: mb_consts IsReadFunction_def max_quantity_def unat_plus7 Suc_le_eq)

text \<open>A rejected request carries one of the three local exception codes.\<close>

lemma ValidateRequest_error:
  assumes "ValidateRequest (Some r) = Some e"
  shows "\<exists>c m. e = validationError c (Plain m) \<and>
    c \<in> {ExcIllegalFunction, ExcIllegalAddress, ExcIllegalValue}"
  using assms unfolding ValidateRequest_def Let_def newValidationError_def
  by (auto split: if_splits)

lemma DownstreamException_validation:
  "DownstreamException (validationError c (Plain m)) = c"
  by (simp add: DownstreamException_def downstreamByType_def errorsAs_def)

lemma valid_read:
  assumes "valid_request r" and "IsReadFunction (FunctionCode r)"
  shows "1 \<le> unat (Quantity r)" and "unat (Quantity r) \<le> 2000"
    and "unat (Address r) + unat (Quantity r) \<le> 65536"
    and "FunctionCode r = FuncReadHoldingRegisters \<or> FunctionCode r = FuncReadInputRegisters
      \<Longrightarrow> unat (Quantity r) \<le> 125"
  using assms
  by (auto simp: valid_request_def Let_def max_quantity_def IsReadFunction_def mb_consts
      split: if_splits)

lemma valid_write_range:
  "valid_request r \<Longrightarrow> IsWriteFunction (FunctionCode r) \<Longrightarrow>
     unat (Address r) + unat (Quantity r) \<le> 65536"
  by (auto simp: valid_request_def Let_def IsWriteFunction_def IsReadFunction_def mb_consts
      split: if_splits)

subsection \<open>Properties\<close>



end
