(* ===== verification/Response_Codec.thy ===== *)
theory Response_Codec
  imports Modbus_Validate
begin

text \<open>
  The two conversions of \<^verbatim>\<open>internal/proxy/proxy.go\<close> between a Modbus read response
  and the per-register and per-coil values the cache stores: \<open>decomposeResponse\<close> and
  \<open>assembleResponse\<close>, with the \<^verbatim>\<open>uint16\<close> index arithmetic of the source. The
  lemmas give both loops in closed form, show that neither panics on a validated quantity, and
  that they are inverse to each other on canonical responses.
\<close>

subsection \<open>Decomposition\<close>

fun decomposeRegs :: "bytes \<Rightarrow> nat \<Rightarrow> nat \<Rightarrow> bytes list option go" where
  "decomposeRegs payload i 0 = Returns (Some [])"
| "decomposeRegs payload i (Suc n) =
     (let offset = (of_nat i * 2 :: u16) in
      if unat (offset + 2) > length payload then Returns None
      else (case slice payload (unat offset) (unat (offset + 2)) of
              Panics \<Rightarrow> Panics
            | Returns reg \<Rightarrow>
                (case decomposeRegs payload (Suc i) n of
                   Returns (Some vs) \<Rightarrow> Returns (Some (reg # vs))
                 | other \<Rightarrow> other)))"

definition coilOn :: bytes where [mb_ops]: "coilOn = [1]"
definition coilOff :: bytes where [mb_ops]: "coilOff = [0]"

fun decomposeCoils :: "bytes \<Rightarrow> nat \<Rightarrow> nat \<Rightarrow> bytes list option go" where
  "decomposeCoils payload i 0 = Returns (Some [])"
| "decomposeCoils payload i (Suc n) =
     (let byteIdx = i div 8; bitIdx = i mod 8 in
      if byteIdx \<ge> length payload then Returns None
      else (case decomposeCoils payload (Suc i) n of
              Returns (Some vs) \<Rightarrow>
                Returns (Some ((if payload ! byteIdx AND push_bit bitIdx 1 \<noteq> 0
                                then coilOn else coilOff) # vs))
            | other \<Rightarrow> other))"

definition decomposeResponse :: "byte \<Rightarrow> u16 \<Rightarrow> bytes \<Rightarrow> bytes list option go" where
  "decomposeResponse functionCode quantity data =
     (if length data < 2 then Returns None
      else
        let payload = drop 2 data in
        if functionCode = FuncReadHoldingRegisters \<or> functionCode = FuncReadInputRegisters
        then decomposeRegs payload 0 (unat quantity)
        else if functionCode = FuncReadCoils \<or> functionCode = FuncReadDiscreteInputs
        then decomposeCoils payload 0 (unat quantity)
        else Returns None)"

subsection \<open>Assembly\<close>

fun assembleRegs :: "nat \<Rightarrow> bytes list \<Rightarrow> bytes \<Rightarrow> bytes go" where
  "assembleRegs i [] resp = Returns resp"
| "assembleRegs i (v # vs) resp =
     (if length v \<ge> 2
      then (if 2 + i * 2 + 1 < length resp
            then assembleRegs (Suc i) vs (resp[2 + i * 2 := v ! 0, 2 + i * 2 + 1 := v ! 1])
            else Panics)
      else assembleRegs (Suc i) vs resp)"

fun assembleCoils :: "nat \<Rightarrow> bytes list \<Rightarrow> bytes \<Rightarrow> bytes go" where
  "assembleCoils i [] resp = Returns resp"
| "assembleCoils i (v # vs) resp =
     (if length v > 0 \<and> v ! 0 \<noteq> 0
      then (let byteIdx = i div 8; bitIdx = i mod 8 in
            if 2 + byteIdx < length resp
            then assembleCoils (Suc i) vs
                   (resp[2 + byteIdx := resp ! (2 + byteIdx) OR push_bit bitIdx 1])
            else Panics)
      else assembleCoils (Suc i) vs resp)"

text \<open>
  \<^verbatim>\<open>make([]byte, 2+byteCount)\<close> with its first two bytes set; the length is computed in
  \<^verbatim>\<open>uint16\<close> arithmetic.
\<close>

definition responseHeader :: "byte \<Rightarrow> u16 \<Rightarrow> bytes go" where
  "responseHeader functionCode byteCount =
     (let resp = replicate (unat (2 + byteCount)) 0 in
      if length resp < 2 then Panics
      else Returns (resp[0 := functionCode, 1 := ucast byteCount]))"

definition assembleResponse :: "byte \<Rightarrow> u16 \<Rightarrow> bytes list \<Rightarrow> bytes option go" where
  "assembleResponse functionCode quantity values =
     (if functionCode = FuncReadHoldingRegisters \<or> functionCode = FuncReadInputRegisters
      then (case responseHeader functionCode (quantity * 2) of
              Panics \<Rightarrow> Panics
            | Returns resp \<Rightarrow> map_go Some (assembleRegs 0 values resp))
      else if functionCode = FuncReadCoils \<or> functionCode = FuncReadDiscreteInputs
      then (case responseHeader functionCode ((quantity + 7) div 8) of
              Panics \<Rightarrow> Panics
            | Returns resp \<Rightarrow> map_go Some (assembleCoils 0 values resp))
      else Returns None)"

subsection \<open>Canonical responses and cached values\<close>

text \<open>
  A canonical response to a read of \<open>q\<close> items: the function code, the byte count, exactly that
  many bytes, and zero padding bits after the last coil.
\<close>

definition payload_bytes :: "byte \<Rightarrow> nat \<Rightarrow> nat" where
  "payload_bytes fc q =
     (if fc = FuncReadHoldingRegisters \<or> fc = FuncReadInputRegisters then 2 * q else (q + 7) div 8)"

definition canonical_response :: "byte \<Rightarrow> nat \<Rightarrow> bytes \<Rightarrow> bool" where
  "canonical_response fc q data \<longleftrightarrow>
     length data = 2 + payload_bytes fc q \<and> data ! 0 = fc \<and>
     data ! 1 = of_nat (payload_bytes fc q) \<and>
     (fc = FuncReadCoils \<or> fc = FuncReadDiscreteInputs \<longrightarrow>
        (\<forall>k < payload_bytes fc q. \<forall>j < 8. q \<le> 8 * k + j \<longrightarrow> \<not> bit (data ! (2 + k)) j))"

text \<open>The values a cache entry may hold for a function code.\<close>

definition wf_value :: "byte \<Rightarrow> bytes \<Rightarrow> bool" where
  "wf_value fc v \<longleftrightarrow>
     (if fc = FuncReadHoldingRegisters \<or> fc = FuncReadInputRegisters then length v = 2
      else v = coilOn \<or> v = coilOff)"

subsection \<open>The loops in closed form\<close>

lemma unat_double: "i \<le> 32767 \<Longrightarrow> unat (of_nat i * 2 :: u16) = 2 * i"
  by (simp add: unat_word_ariths unat_of_nat)

lemma unat_double_plus2: "i < 32767 \<Longrightarrow> unat (of_nat i * 2 + 2 :: u16) = 2 * i + 2"
  by (simp add: unat_word_ariths unat_of_nat)

lemma decomposeRegs_closed:
  "i + n \<le> 32767 \<Longrightarrow> decomposeRegs payload i n =
     Returns (if n = 0 \<or> 2 * (i + n) \<le> length payload
              then Some (map (\<lambda>k. take 2 (drop (2 * k) payload)) [i..<i + n]) else None)"
proof (induction n arbitrary: i)
  case (Suc n)
  then show ?case
    by (auto simp: unat_double unat_double_plus2 slice_def Let_def upt_conv_Cons simp del: upt_Suc)
qed simp

definition coil_of :: "bytes \<Rightarrow> nat \<Rightarrow> bytes" where
  "coil_of payload k = (if bit (payload ! (k div 8)) (k mod 8) then coilOn else coilOff)"

lemma and_power2_iff: "w AND 2 ^ j \<noteq> 0 \<longleftrightarrow> bit w j" for w :: byte
proof -
  have "w AND 2 ^ j = (if bit w j then 2 ^ j else 0)"
    by (rule bit_word_eqI) (auto simp: bit_simps)
  moreover have "2 ^ j \<noteq> (0 :: byte)" if "bit w j"
    using that bit_imp_le_length [of w j] by (auto simp: bit_eq_iff bit_simps)
  ultimately show ?thesis by auto
qed

lemma decomposeCoils_closed:
  "decomposeCoils payload i n =
     Returns (if n = 0 \<or> i + n \<le> 8 * length payload
              then Some (map (coil_of payload) [i..<i + n]) else None)"
proof (induction n arbitrary: i)
  case (Suc n)
  have "i div 8 \<ge> length payload \<longleftrightarrow> \<not> i < 8 * length payload"
    by (metis div_less_iff_less_mult linorder_not_less mult.commute zero_less_numeral)
  then show ?case
    by (auto simp: Suc.IH and_power2_iff coil_of_def Let_def upt_conv_Cons simp del: upt_Suc)
qed simp

lemma assembleRegs_closed:
  assumes "\<forall>v \<in> set vs. length v = 2" and "2 + 2 * (i + length vs) \<le> length resp"
  shows "assembleRegs i vs resp =
    Returns (take (2 + 2 * i) resp @ concat vs @ drop (2 + 2 * (i + length vs)) resp)"
  using assms
proof (induction vs arbitrary: i resp)
  case Nil
  then show ?case by simp
next
  case (Cons v vs)
  obtain a b where v: "v = [a, b]" using Cons.prems(1) by (auto simp: length_Suc_conv numeral_2_eq_2)
  let ?n = "2 + 2 * i"
  have len: "?n + 1 < length resp" using Cons.prems(2) by simp
  have upd: "take (?n + 2) (resp[?n := a, ?n + 1 := b]) = take ?n resp @ [a, b]"
    by (rule nth_equalityI) (use len in \<open>auto simp: nth_append nth_list_update less_Suc_eq\<close>)
  have "assembleRegs i (v # vs) resp = assembleRegs (Suc i) vs (resp[?n := a, ?n + 1 := b])"
    using len by (simp add: v mult.commute)
  also have "\<dots> = Returns (take (?n + 2) (resp[?n := a, ?n + 1 := b]) @ concat vs @
      drop (2 + 2 * (Suc i + length vs)) (resp[?n := a, ?n + 1 := b]))"
    using Cons.IH [of "Suc i" "resp[?n := a, ?n + 1 := b]"] Cons.prems by simp
  also have "\<dots> = Returns (take ?n resp @ concat (v # vs) @ drop (2 + 2 * (i + length (v # vs))) resp)"
    unfolding upd by (simp add: v)
  finally show ?case .
qed

text \<open>Setting coil \<open>i\<close> in the response changes one bit.\<close>

lemma set_coil_bit:
  fixes resp :: bytes
  assumes "2 + i div 8 < length resp" and "j < 8" and "k < length resp"
    and "resp' = (if b then resp[2 + i div 8 := resp ! (2 + i div 8) OR push_bit (i mod 8) 1] else resp)"
  shows "bit (resp' ! k) j \<longleftrightarrow> bit (resp ! k) j \<or> (2 \<le> k \<and> 8 * (k - 2) + j = i \<and> b)"
proof -
  have pos: "k = 2 + i div 8 \<and> j = i mod 8 \<longleftrightarrow> 2 \<le> k \<and> 8 * (k - 2) + j = i" using assms(2) by auto
  have "resp' ! k = (if b \<and> k = 2 + i div 8 then resp ! k OR push_bit (i mod 8) 1 else resp ! k)"
    using assms(1,4) by (auto simp: nth_list_update)
  then show ?thesis using assms(2) pos by (auto simp: bit_simps)
qed

lemma assembleCoils_closed:
  assumes "i + length vs \<le> 8 * (length resp - 2)"
  shows "\<exists>out. assembleCoils i vs resp = Returns out \<and> length out = length resp \<and>
    (\<forall>k j. j < 8 \<longrightarrow> k < length resp \<longrightarrow> (bit (out ! k) j \<longleftrightarrow> bit (resp ! k) j \<or>
       (2 \<le> k \<and> i \<le> 8 * (k - 2) + j \<and> 8 * (k - 2) + j < i + length vs \<and>
        (let v = vs ! (8 * (k - 2) + j - i) in v \<noteq> [] \<and> v ! 0 \<noteq> 0))))"
  using assms
proof (induction vs arbitrary: i resp)
  case Nil
  then show ?case by auto
next
  case (Cons v vs)
  let ?b = "2 + i div 8"
  have b: "?b < length resp" using Cons.prems by simp
  define resp' where "resp' = (if length v > 0 \<and> v ! 0 \<noteq> 0
    then resp[?b := resp ! ?b OR push_bit (i mod 8) 1] else resp)"
  have step: "assembleCoils i (v # vs) resp = assembleCoils (Suc i) vs resp'"
    using b by (simp add: resp'_def Let_def)
  have len: "length resp' = length resp" by (simp add: resp'_def)
  obtain out where out: "assembleCoils (Suc i) vs resp' = Returns out" "length out = length resp'"
    "\<And>k j. j < 8 \<Longrightarrow> k < length resp' \<Longrightarrow> (bit (out ! k) j \<longleftrightarrow> bit (resp' ! k) j \<or>
       (2 \<le> k \<and> Suc i \<le> 8 * (k - 2) + j \<and> 8 * (k - 2) + j < Suc i + length vs \<and>
        (let v = vs ! (8 * (k - 2) + j - Suc i) in v \<noteq> [] \<and> v ! 0 \<noteq> 0)))"
    using Cons.IH [of "Suc i" resp'] Cons.prems len by auto
  have bit': "bit (resp' ! k) j \<longleftrightarrow> bit (resp ! k) j \<or>
      (2 \<le> k \<and> 8 * (k - 2) + j = i \<and> v \<noteq> [] \<and> v ! 0 \<noteq> 0)" if "j < 8" "k < length resp" for j k
    using set_coil_bit [OF b that, where b = "v \<noteq> [] \<and> v ! 0 \<noteq> 0"] by (simp add: resp'_def)
  show ?case
    unfolding step
  proof (intro exI conjI allI impI)
    fix k j :: nat
    assume jk: "j < 8" "k < length resp"
    let ?x = "8 * (k - 2) + j"
    have "(v # vs) ! (?x - i) = (if ?x = i then v else vs ! (?x - Suc i))" if "i \<le> ?x"
      using that by (auto simp: nth_Cons')
    then show "bit (out ! k) j \<longleftrightarrow> bit (resp ! k) j \<or>
       (2 \<le> k \<and> i \<le> ?x \<and> ?x < i + length (v # vs) \<and>
        (let u = (v # vs) ! (?x - i) in u \<noteq> [] \<and> u ! 0 \<noteq> 0))"
      using out(3) [of j k] bit' [of j k] jk len by (cases "?x = i") (auto simp: Let_def)
  qed (use out len in auto)
qed

subsection \<open>Round trips\<close>

abbreviation reg_fc :: "byte \<Rightarrow> bool" where
  "reg_fc fc \<equiv> fc = FuncReadHoldingRegisters \<or> fc = FuncReadInputRegisters"

abbreviation coil_fc :: "byte \<Rightarrow> bool" where
  "coil_fc fc \<equiv> fc = FuncReadCoils \<or> fc = FuncReadDiscreteInputs"

lemma coil_not_reg: "coil_fc fc \<Longrightarrow> \<not> reg_fc fc"
  by (auto simp: mb_consts)

lemma read_fc_cases: "IsReadFunction fc \<Longrightarrow> (reg_fc fc \<Longrightarrow> P) \<Longrightarrow> (coil_fc fc \<Longrightarrow> P) \<Longrightarrow> P"
  by (auto simp: IsReadFunction_def)

lemma responseHeader_closed:
  assumes "unat byteCount \<le> 4096"
  shows "responseHeader fc byteCount = Returns (fc # ucast byteCount # replicate (unat byteCount) 0)"
proof -
  have "unat (2 + byteCount) = Suc (Suc (unat byteCount))"
    using assms by (simp add: unat_word_ariths)
  then show ?thesis by (simp add: responseHeader_def)
qed

lemma concat_chunks:
  "length p = 2 * n \<Longrightarrow> concat (map (\<lambda>k. take 2 (drop (2 * k) p)) [0..<n]) = p"
proof (induction n arbitrary: p)
  case (Suc n)
  have "map (\<lambda>k. take 2 (drop (2 * k) p)) [0..<Suc n] =
      take 2 p # map (\<lambda>k. take 2 (drop (2 * k) (drop 2 p))) [0..<n]"
    by (simp add: upt_conv_Cons map_Suc_upt [symmetric] add.commute comp_def del: upt_Suc)
  then show ?case using Suc.IH [of "drop 2 p"] Suc.prems by simp
qed simp

lemma length_concat2: "\<forall>v \<in> set vs. length v = 2 \<Longrightarrow> length (concat vs) = 2 * length vs"
  by (induction vs) auto

lemma chunks_concat:
  "\<forall>v \<in> set vs. length v = 2 \<Longrightarrow>
     map (\<lambda>k. take 2 (drop (2 * k) (concat vs))) [0..<length vs] = vs"
proof (induction vs)
  case (Cons v vs)
  then obtain a b where v: "v = [a, b]" by (auto simp: length_Suc_conv numeral_2_eq_2)
  have "map (\<lambda>k. take 2 (drop (2 * k) (concat (v # vs)))) [0..<length (v # vs)] =
      v # map (\<lambda>k. take 2 (drop (2 * k) (concat vs))) [0..<length vs]"
    by (simp add: v upt_conv_Cons map_Suc_upt [symmetric] comp_def del: upt_Suc)
  then show ?case using Cons by simp
qed simp

lemma split_header: "length data \<ge> 2 \<Longrightarrow> data = data ! 0 # data ! 1 # drop 2 data"
  by (cases data; cases "tl data") auto

lemma ucast_byteCount: "unat (w :: u16) = n \<Longrightarrow> (ucast w :: byte) = of_nat n"
  by auto

lemma ceil8: "n \<le> 8 * ((n + 7) div 8)" for n :: nat
  by arith

lemma unat_coil_bytes: "unat q \<le> 2000 \<Longrightarrow> unat ((q + 7) div 8 :: u16) = (unat q + 7) div 8"
  by (simp add: unat_div unat_word_ariths)

lemma unat_reg_bytes: "unat q \<le> 2000 \<Longrightarrow> unat (q * 2 :: u16) = 2 * unat q"
  by (simp add: unat_word_ariths)

lemma assemble_regs:
  assumes "reg_fc fc" and "unat q \<le> 2000" and "length vs = unat q" and "\<forall>v \<in> set vs. length v = 2"
  shows "assembleResponse fc q vs = Returns (Some (fc # of_nat (2 * unat q) # concat vs))"
proof -
  let ?h = "fc # ucast (q * 2) # replicate (2 * unat q) 0"
  have h: "responseHeader fc (q * 2) = Returns ?h"
    using responseHeader_closed [of "q * 2" fc] assms(2) by (simp add: unat_reg_bytes)
  have "assembleRegs 0 vs ?h = Returns (take 2 ?h @ concat vs @ drop (2 + 2 * length vs) ?h)"
    using assembleRegs_closed [of vs 0 ?h] assms(3,4) by simp
  then show ?thesis
    using assms(1,2,3) h ucast_byteCount [OF unat_reg_bytes, of q]
    by (auto simp: assembleResponse_def)
qed

lemma assemble_coils:
  assumes "coil_fc fc" and "unat q \<le> 2000" and "length vs = unat q"
  shows "\<exists>p. assembleResponse fc q vs = Returns (Some (fc # of_nat ((unat q + 7) div 8) # p)) \<and>
    length p = (unat q + 7) div 8 \<and>
    (\<forall>k j. j < 8 \<longrightarrow> k < length p \<longrightarrow> (bit (p ! k) j \<longleftrightarrow>
       8 * k + j < unat q \<and> vs ! (8 * k + j) \<noteq> [] \<and> vs ! (8 * k + j) ! 0 \<noteq> 0))"
proof -
  let ?n = "(unat q + 7) div 8"
  let ?h = "fc # ucast ((q + 7) div 8) # replicate ?n 0"
  have h: "responseHeader fc ((q + 7) div 8) = Returns ?h"
    using responseHeader_closed [of "(q + 7) div 8" fc] assms(2) by (simp add: unat_coil_bytes)
  obtain out where out: "assembleCoils 0 vs ?h = Returns out" "length out = length ?h"
    "\<And>k j. j < 8 \<Longrightarrow> k < length ?h \<Longrightarrow> (bit (out ! k) j \<longleftrightarrow> bit (?h ! k) j \<or>
       (2 \<le> k \<and> 0 \<le> 8 * (k - 2) + j \<and> 8 * (k - 2) + j < 0 + length vs \<and>
        (let v = vs ! (8 * (k - 2) + j - 0) in v \<noteq> [] \<and> v ! 0 \<noteq> 0)))"
  proof -
    have "0 + length vs \<le> 8 * (length ?h - 2)" using assms(3) ceil8 [of "unat q"] by simp
    from assembleCoils_closed [OF this] show thesis using that by blast
  qed
  have out01: "out ! 0 = fc" "out ! 1 = ucast ((q + 7) div 8)"
    using out(3) [of _ 0] out(3) [of _ 1] by (auto intro!: bit_word_eqI)
  have "out = fc # ucast ((q + 7) div 8) # drop 2 out"
    using split_header [of out] out01 out(2) by simp
  moreover have "(ucast ((q + 7) div 8) :: byte) = of_nat ?n"
    using assms(2) by (intro ucast_byteCount unat_coil_bytes)
  moreover have "bit (drop 2 out ! k) j \<longleftrightarrow> 8 * k + j < unat q \<and> vs ! (8 * k + j) \<noteq> [] \<and>
      vs ! (8 * k + j) ! 0 \<noteq> 0" if "j < 8" "k < ?n" for k j
    using that out(2) out(3) [of j "2 + k"] assms(3) by (simp add: Let_def)
  ultimately show ?thesis
    using assms(1) coil_not_reg [OF assms(1)] h out(1,2)
    by (intro exI [of _ "drop 2 out"]) (simp add: assembleResponse_def)
qed

lemma decompose_regs:
  assumes "reg_fc fc" and "unat q \<le> 2000"
  shows "decomposeResponse fc q data =
    Returns (if 2 \<le> length data \<and> (unat q = 0 \<or> 2 * unat q \<le> length data - 2)
             then Some (map (\<lambda>k. take 2 (drop (2 * k) (drop 2 data))) [0..<unat q]) else None)"
  using assms decomposeRegs_closed [of 0 "unat q" "drop 2 data"]
  by (auto simp: decomposeResponse_def Let_def)

lemma decompose_coils:
  assumes "coil_fc fc"
  shows "decomposeResponse fc q data =
    Returns (if 2 \<le> length data \<and> (unat q = 0 \<or> unat q \<le> 8 * (length data - 2))
             then Some (map (coil_of (drop 2 data)) [0..<unat q]) else None)"
  using assms coil_not_reg [OF assms] decomposeCoils_closed [of "drop 2 data" 0 "unat q"]
  by (auto simp: decomposeResponse_def Let_def)

text \<open>Whatever is decomposed has the requested number of well-formed values.\<close>

lemma decompose_wf:
  assumes "IsReadFunction fc" and "unat q \<le> 2000" and "decomposeResponse fc q data = Returns (Some vs)"
  shows "length vs = unat q \<and> (\<forall>v \<in> set vs. wf_value fc v)"
  using assms(1)
proof (rule read_fc_cases)
  assume "reg_fc fc"
  then show ?thesis using assms(2,3) by (auto simp: decompose_regs wf_value_def split: if_splits)
next
  assume "coil_fc fc"
  then show ?thesis using assms(2,3) coil_not_reg [OF \<open>coil_fc fc\<close>]
    by (auto simp: decompose_coils wf_value_def coil_of_def split: if_splits)
qed

lemma decompose_returns:
  "IsReadFunction fc \<Longrightarrow> unat q \<le> 2000 \<Longrightarrow> decomposeResponse fc q data \<noteq> Panics"
  by (erule read_fc_cases) (simp_all add: decompose_regs decompose_coils)

lemma wf_coil_on: "coil_fc fc \<Longrightarrow> wf_value fc v \<Longrightarrow>
    v = (if v \<noteq> [] \<and> v ! 0 \<noteq> 0 then coilOn else coilOff)"
  using coil_not_reg by (auto simp: wf_value_def mb_ops)

text \<open>A response assembled from well-formed values decomposes into those values again.\<close>

lemma decompose_assemble:
  assumes "IsReadFunction fc" and "unat q \<le> 2000" and "length vs = unat q"
    and "\<forall>v \<in> set vs. wf_value fc v"
  shows "\<exists>data. assembleResponse fc q vs = Returns (Some data) \<and>
    canonical_response fc (unat q) data \<and> decomposeResponse fc q data = Returns (Some vs)"
  using assms(1)
proof (rule read_fc_cases)
  assume fc: "reg_fc fc"
  have two: "\<forall>v \<in> set vs. length v = 2" using assms(4) fc by (auto simp: wf_value_def)
  have len: "length (concat vs) = 2 * unat q"
    using two assms(3) by (simp add: length_concat2)
  have "map (\<lambda>k. take 2 (drop (2 * k) (concat vs))) [0..<length vs] = vs"
    using two by (rule chunks_concat)
  then show ?thesis
    using assemble_regs [OF fc assms(2,3) two] assms(2,3) len fc
    by (auto simp: decompose_regs canonical_response_def payload_bytes_def mb_consts)
next
  assume fc: "coil_fc fc"
  obtain p where p: "assembleResponse fc q vs = Returns (Some (fc # of_nat ((unat q + 7) div 8) # p))"
    "length p = (unat q + 7) div 8"
    "\<And>k j. j < 8 \<Longrightarrow> k < length p \<Longrightarrow> (bit (p ! k) j \<longleftrightarrow>
       8 * k + j < unat q \<and> vs ! (8 * k + j) \<noteq> [] \<and> vs ! (8 * k + j) ! 0 \<noteq> 0)"
    using assemble_coils [OF fc assms(2,3)] by blast
  have "map (coil_of p) [0..<unat q] = vs"
  proof (rule nth_equalityI)
    fix i assume "i < length (map (coil_of p) [0..<unat q])"
    then have i: "i < unat q" by simp
    then have "i div 8 < length p" using p(2) by simp
    then have "coil_of p i = (if vs ! i \<noteq> [] \<and> vs ! i ! 0 \<noteq> 0 then coilOn else coilOff)"
      using p(3) [of "i mod 8" "i div 8"] i by (simp add: coil_of_def)
    then show "map (coil_of p) [0..<unat q] ! i = vs ! i"
      using i wf_coil_on [OF fc, of "vs ! i"] assms(3,4) by simp
  qed (simp add: assms(3))
  then show ?thesis
    using p fc coil_not_reg [OF fc] ceil8 [of "unat q"]
    by (auto simp: decompose_coils canonical_response_def payload_bytes_def)
qed

text \<open>A canonical response is restored from its values.\<close>

lemma assemble_decompose:
  assumes "IsReadFunction fc" and "unat q \<le> 2000" and "canonical_response fc (unat q) data"
  shows "\<exists>vs. decomposeResponse fc q data = Returns (Some vs) \<and>
    assembleResponse fc q vs = Returns (Some data)"
  using assms(1)
proof (rule read_fc_cases)
  assume fc: "reg_fc fc"
  let ?vs = "map (\<lambda>k. take 2 (drop (2 * k) (drop 2 data))) [0..<unat q]"
  have len: "length data = 2 + 2 * unat q" and d: "data ! 0 = fc" "data ! 1 = of_nat (2 * unat q)"
    using assms(3) fc by (auto simp: canonical_response_def payload_bytes_def)
  have dec: "decomposeResponse fc q data = Returns (Some ?vs)"
    using decompose_regs [OF fc assms(2)] len by simp
  have "data = fc # of_nat (2 * unat q) # drop 2 data"
    using split_header [of data] len d by simp
  then have "assembleResponse fc q ?vs = Returns (Some data)"
    using assemble_regs [OF fc assms(2), of ?vs] decompose_wf [OF assms(1,2) dec] fc
      concat_chunks [of "drop 2 data" "unat q"] len by (simp add: wf_value_def)
  with dec show ?thesis by blast
next
  assume fc: "coil_fc fc"
  let ?p = "drop 2 data" and ?n = "(unat q + 7) div 8"
  let ?vs = "map (coil_of ?p) [0..<unat q]"
  have len: "length data = 2 + ?n" and d: "data ! 0 = fc" "data ! 1 = of_nat ?n"
    and pad: "\<And>k j. k < ?n \<Longrightarrow> j < 8 \<Longrightarrow> unat q \<le> 8 * k + j \<Longrightarrow> \<not> bit (?p ! k) j"
    using assms(3) fc coil_not_reg [OF fc] by (auto simp: canonical_response_def payload_bytes_def)
  have dec: "decomposeResponse fc q data = Returns (Some ?vs)"
    using decompose_coils [OF fc, of q data] len ceil8 [of "unat q"] by simp
  obtain p where p: "assembleResponse fc q ?vs = Returns (Some (fc # of_nat ?n # p))" "length p = ?n"
    "\<And>k j. j < 8 \<Longrightarrow> k < length p \<Longrightarrow> (bit (p ! k) j \<longleftrightarrow>
       8 * k + j < unat q \<and> ?vs ! (8 * k + j) \<noteq> [] \<and> ?vs ! (8 * k + j) ! 0 \<noteq> 0)"
    using assemble_coils [OF fc assms(2), of ?vs] by auto
  have "p = ?p"
  proof (rule nth_equalityI)
    fix k assume k: "k < length p"
    have "bit (p ! k) j \<longleftrightarrow> bit (?p ! k) j" if "j < 8" for j
      using p(2) p(3) [of j k] pad [of k j] k that
      by (cases "8 * k + j < unat q") (auto simp: coil_of_def mb_ops)
    then show "p ! k = ?p ! k" by (intro bit_word_eqI) simp
  qed (simp add: p(2) len)
  moreover have "data = fc # of_nat ?n # ?p" using split_header [of data] len d by simp
  ultimately show ?thesis using dec p(1) by auto
qed

subsection \<open>Properties\<close>

text \<open>
  C27: Caching loses nothing. A canonical read response decomposes into per-register (or
  per-coil) values from which assembling gives back the same bytes, for every quantity the
  protocol allows; neither conversion panics.
\<close>

theorem response_roundtrip:
  assumes "IsReadFunction fc" and "unat q \<le> 2000" and "canonical_response fc (unat q) data"
  shows "\<exists>vs. decomposeResponse fc q data = Returns (Some vs) \<and> length vs = unat q \<and>
    assembleResponse fc q vs = Returns (Some data)"
  using assemble_decompose [OF assms] decompose_wf [OF assms(1,2)] by blast

theorem response_roundtrip_witness:
  "\<exists>vs. decomposeResponse 1 8 [1, 1, 0xCD] = Returns (Some vs) \<and> length vs = 8 \<and>
     assembleResponse 1 8 vs = Returns (Some [1, 1, 0xCD])"
proof -
  have "canonical_response 1 (unat (8 :: u16)) [1, 1, 0xCD]"
    by (auto simp: canonical_response_def payload_bytes_def mb_consts)
  then show ?thesis
    using response_roundtrip [of 1 8 "[1, 1, 0xCD]"] by (simp add: IsReadFunction_def mb_consts)
qed

text \<open>
  A response built from cached values is canonical (right length, byte count and padding) and
  decomposes into those values again, for values of the shape the cache holds.
\<close>

lemma assembled_response_canonical:
  assumes "IsReadFunction fc" and "unat q \<le> 2000" and "length vs = unat q"
    and "\<forall>v \<in> set vs. wf_value fc v"
  shows "\<exists>data. assembleResponse fc q vs = Returns (Some data) \<and>
    canonical_response fc (unat q) data \<and> decomposeResponse fc q data = Returns (Some vs)"
  using assms by (rule decompose_assemble)

end
