(* ===== verification/Cache_Store.thy ===== *)
theory Cache_Store
  imports Mb_Prelude
begin

text \<open>
  The storage half of \<^verbatim>\<open>internal/cache/cache.go\<close>: entries with a timestamp and a
  TTL under textual keys, single and range operations, expiry and the cleanup pass. Every
  operation runs under the cache's lock, so it is one function of the cache state. Where the
  source reads the clock once per entry, the model takes one reading per entry: \<open>now i\<close> is
  the clock at iteration \<open>i\<close>. The locale \<open>value_store\<close> is the contract the proxy relies
  on; it is interpreted on the operations below.
\<close>

subsection \<open>State\<close>

record entry =
  entData :: bytes
  Timestamp :: time
  TTL :: duration

record cache =
  entries :: "string \<rightharpoonup> entry"
  defaultTTL :: duration
  keepStale :: bool
  done_closed :: bool

definition IsExpired :: "time \<Rightarrow> entry \<Rightarrow> bool" where
  "IsExpired now e \<longleftrightarrow> sint (time_sub now (Timestamp e)) > sint (TTL e)"

definition NewCache :: "duration \<Rightarrow> bool \<Rightarrow> cache" where
  "NewCache ttl keep =
     \<lparr>entries = Map.empty, defaultTTL = ttl, keepStale = keep, done_closed = False\<rparr>"

text \<open>Closing the channel a second time panics.\<close>

definition CloseCache :: "cache \<Rightarrow> cache go" where
  "CloseCache c = (if done_closed c then Panics else Returns (c\<lparr>done_closed := True\<rparr>))"

subsection \<open>Keys\<close>

definition RegKey :: "byte \<Rightarrow> byte \<Rightarrow> u16 \<Rightarrow> string" where
  "RegKey slaveID functionCode address =
     fmt_d (unat slaveID) @ '':'' @ fmt_d (unat functionCode) @ '':'' @ fmt_d (unat address)"

definition RangeKey :: "byte \<Rightarrow> byte \<Rightarrow> u16 \<Rightarrow> u16 \<Rightarrow> string" where
  "RangeKey slaveID functionCode startAddr quantity =
     fmt_d (unat slaveID) @ '':'' @ fmt_d (unat functionCode) @ '':'' @ fmt_d (unat startAddr) @
     '':'' @ fmt_d (unat quantity)"

subsection \<open>Single values\<close>

definition Get :: "time \<Rightarrow> cache \<Rightarrow> string \<Rightarrow> bytes option" where
  "Get now c key = (case entries c key of
     None \<Rightarrow> None
   | Some e \<Rightarrow> if IsExpired now e then None else Some (entData e))"

definition GetStale :: "cache \<Rightarrow> string \<Rightarrow> bytes option" where
  "GetStale c key = (case entries c key of None \<Rightarrow> None | Some e \<Rightarrow> Some (entData e))"

definition SetValue :: "time \<Rightarrow> cache \<Rightarrow> string \<Rightarrow> bytes \<Rightarrow> cache" where
  "SetValue now c key data =
     c\<lparr>entries := (entries c)(key \<mapsto> \<lparr>entData = data, Timestamp = now, TTL = defaultTTL c\<rparr>)\<rparr>"

definition DeleteKey :: "cache \<Rightarrow> string \<Rightarrow> cache" where
  "DeleteKey c key = c\<lparr>entries := (entries c)(key := None)\<rparr>"

subsection \<open>Ranges\<close>

fun GetRange_loop :: "(nat \<Rightarrow> time) \<Rightarrow> cache \<Rightarrow> byte \<Rightarrow> byte \<Rightarrow> u16 \<Rightarrow> nat \<Rightarrow> nat \<Rightarrow> bytes list option" where
  "GetRange_loop now c s f a i 0 = Some []"
| "GetRange_loop now c s f a i (Suc n) =
     (case entries c (RegKey s f (a + of_nat i)) of
        None \<Rightarrow> None
      | Some e \<Rightarrow>
          if IsExpired (now i) e then None
          else map_option ((#) (entData e)) (GetRange_loop now c s f a (Suc i) n))"

definition GetRange :: "(nat \<Rightarrow> time) \<Rightarrow> cache \<Rightarrow> byte \<Rightarrow> byte \<Rightarrow> u16 \<Rightarrow> u16 \<Rightarrow> bytes list option" where
  "GetRange now c slaveID functionCode startAddr quantity =
     (if quantity = 0 then None
      else GetRange_loop now c slaveID functionCode startAddr 0 (unat quantity))"

fun GetRangeStale_loop :: "cache \<Rightarrow> byte \<Rightarrow> byte \<Rightarrow> u16 \<Rightarrow> nat \<Rightarrow> nat \<Rightarrow> bytes list option" where
  "GetRangeStale_loop c s f a i 0 = Some []"
| "GetRangeStale_loop c s f a i (Suc n) =
     (case entries c (RegKey s f (a + of_nat i)) of
        None \<Rightarrow> None
      | Some e \<Rightarrow> map_option ((#) (entData e)) (GetRangeStale_loop c s f a (Suc i) n))"

definition GetRangeStale :: "cache \<Rightarrow> byte \<Rightarrow> byte \<Rightarrow> u16 \<Rightarrow> u16 \<Rightarrow> bytes list option" where
  "GetRangeStale c slaveID functionCode startAddr quantity =
     (if quantity = 0 then None
      else GetRangeStale_loop c slaveID functionCode startAddr 0 (unat quantity))"

fun SetRange_loop :: "time \<Rightarrow> byte \<Rightarrow> byte \<Rightarrow> u16 \<Rightarrow> nat \<Rightarrow> bytes list \<Rightarrow> cache \<Rightarrow> cache" where
  "SetRange_loop now s f a i [] c = c"
| "SetRange_loop now s f a i (v # vs) c =
     SetRange_loop now s f a (Suc i) vs
       (c\<lparr>entries := (entries c)(RegKey s f (a + of_nat i) \<mapsto>
            \<lparr>entData = v, Timestamp = now, TTL = defaultTTL c\<rparr>)\<rparr>)"

definition SetRange :: "time \<Rightarrow> cache \<Rightarrow> byte \<Rightarrow> byte \<Rightarrow> u16 \<Rightarrow> bytes list \<Rightarrow> cache" where
  "SetRange now c slaveID functionCode startAddr values =
     SetRange_loop now slaveID functionCode startAddr 0 values c"

fun DeleteRange_loop :: "byte \<Rightarrow> byte \<Rightarrow> u16 \<Rightarrow> nat \<Rightarrow> nat \<Rightarrow> cache \<Rightarrow> cache" where
  "DeleteRange_loop s f a i 0 c = c"
| "DeleteRange_loop s f a i (Suc n) c =
     DeleteRange_loop s f a (Suc i) n
       (c\<lparr>entries := (entries c)(RegKey s f (a + of_nat i) := None)\<rparr>)"

definition DeleteRange :: "cache \<Rightarrow> byte \<Rightarrow> byte \<Rightarrow> u16 \<Rightarrow> u16 \<Rightarrow> cache" where
  "DeleteRange c slaveID functionCode startAddr quantity =
     DeleteRange_loop slaveID functionCode startAddr 0 (unat quantity) c"

subsection \<open>Cleanup\<close>

text \<open>\<open>now key\<close> is the clock when the pass visits \<open>key\<close>.\<close>

definition cleanupOnce :: "(string \<Rightarrow> time) \<Rightarrow> cache \<Rightarrow> cache" where
  "cleanupOnce now c =
     (if keepStale c then c
      else c\<lparr>entries := (\<lambda>k. case entries c k of
                 None \<Rightarrow> None
               | Some e \<Rightarrow> if IsExpired (now k) e then None else Some e)\<rparr>)"

text \<open>What the cleanup goroutine's \<^verbatim>\<open>select\<close> receives, in order.\<close>

datatype cleanup_event = DoneClosed | Tick "string \<Rightarrow> time"

fun cleanup :: "cleanup_event list \<Rightarrow> cache \<Rightarrow> cache" where
  "cleanup [] c = c"
| "cleanup (DoneClosed # evs) c = c"
| "cleanup (Tick now # evs) c = cleanup evs (cleanupOnce now c)"

subsection \<open>Keys are injective\<close>

lemma RegKey_inj [simp]:
  "RegKey s f a = RegKey s' f' a' \<longleftrightarrow> s = s' \<and> f = f' \<and> a = a'"
  by (simp add: RegKey_def split_at_first fmt_d_inj word_unat_eq_iff)

lemma RangeKey_inj:
  "RangeKey s f a q = RangeKey s' f' a' q' \<longleftrightarrow> s = s' \<and> f = f' \<and> a = a' \<and> q = q'"
  by (simp add: RangeKey_def split_at_first fmt_d_inj word_unat_eq_iff)

subsection \<open>The cache as a map from addresses\<close>

definition slot :: "cache \<Rightarrow> byte \<Rightarrow> byte \<Rightarrow> u16 \<Rightarrow> entry option" where
  "slot c s f a = entries c (RegKey s f a)"

text \<open>\<open>in_range a n x\<close>: address \<open>x\<close> is one of the \<open>n\<close> addresses from \<open>a\<close> on (modulo
  the 16-bit address space).\<close>

definition in_range :: "u16 \<Rightarrow> nat \<Rightarrow> u16 \<Rightarrow> bool" where
  "in_range a n x \<longleftrightarrow> unat (x - a) < n"

lemma in_range_iff: "n \<le> 65536 \<Longrightarrow> in_range a n x \<longleftrightarrow> (\<exists>i < n. x = a + of_nat i)"
proof
  assume "in_range a n x"
  then show "\<exists>i < n. x = a + of_nat i"
    by (intro exI [of _ "unat (x - a)"]) (simp add: in_range_def)
next
  assume n: "n \<le> 65536" and "\<exists>i < n. x = a + of_nat i"
  then show "in_range a n x"
    by (auto simp: in_range_def unat_of_nat)
qed

lemma offset_of_index: "i < 65536 \<Longrightarrow> unat ((a + of_nat i) - a :: u16) = i"
  by (simp add: unat_of_nat)

lemma SetRange_loop_other:
  "(\<forall>j < length vs. (s', f', x) \<noteq> (s, f, a + of_nat (i + j))) \<Longrightarrow>
     slot (SetRange_loop now s f a i vs c) s' f' x = slot c s' f' x"
proof (induction vs arbitrary: i c)
  case (Cons v vs)
  have "\<forall>j < length vs. (s', f', x) \<noteq> (s, f, a + of_nat (Suc i + j))"
    using Cons.prems by (metis Suc_less_eq add_Suc_shift length_Cons)
  moreover have "(s', f', x) \<noteq> (s, f, a + of_nat i)" using Cons.prems by force
  ultimately show ?case by (simp add: Cons.IH) (auto simp: slot_def)
qed simp

lemma SetRange_loop_frame [simp]:
  "defaultTTL (SetRange_loop now s f a i vs c) = defaultTTL c"
  "keepStale (SetRange_loop now s f a i vs c) = keepStale c"
  "done_closed (SetRange_loop now s f a i vs c) = done_closed c"
  by (induction vs arbitrary: i c) auto

lemma SetRange_loop_slot:
  "i + length vs \<le> 65536 \<Longrightarrow> j < length vs \<Longrightarrow>
     slot (SetRange_loop now s f a i vs c) s f (a + of_nat (i + j)) =
       Some \<lparr>entData = vs ! j, Timestamp = now, TTL = defaultTTL c\<rparr>"
proof (induction vs arbitrary: i j c)
  case (Cons v vs)
  show ?case
  proof (cases j)
    case 0
    have "\<forall>k < length vs. (s, f, a + of_nat i) \<noteq> (s, f, a + of_nat (Suc i + k))"
    proof (intro allI impI)
      fix k assume "k < length vs"
      then show "(s, f, a + of_nat i) \<noteq> (s, f, a + of_nat (Suc i + k))"
        using Cons.prems(1) u16_offset_inj [of i "Suc i + k" a] by auto
    qed
    from SetRange_loop_other [OF this] show ?thesis by (simp add: 0) (simp add: slot_def)
  next
    case (Suc j')
    then show ?thesis using Cons.IH [of "Suc i" j'] Cons.prems by simp
  qed
qed simp

lemma slot_SetRange:
  assumes "length vs \<le> 65536"
  shows "slot (SetRange now c s f a vs) s' f' x =
    (if s' = s \<and> f' = f \<and> in_range a (length vs) x
     then Some \<lparr>entData = vs ! unat (x - a), Timestamp = now, TTL = defaultTTL c\<rparr>
     else slot c s' f' x)"
proof (cases "s' = s \<and> f' = f \<and> in_range a (length vs) x")
  case True
  then have "unat (x - a) < length vs" by (simp add: in_range_def)
  then show ?thesis
    using True SetRange_loop_slot [of 0 vs "unat (x - a)" now s f a c] assms
    by (simp add: SetRange_def)
next
  case False
  then have "\<forall>j < length vs. (s', f', x) \<noteq> (s, f, a + of_nat (0 + j))"
    using assms by (auto simp: in_range_iff)
  from SetRange_loop_other [OF this] show ?thesis using False by (auto simp: SetRange_def)
qed

lemma DeleteRange_loop_slot:
  "slot (DeleteRange_loop s f a i n c) s' f' x =
     (if s' = s \<and> f' = f \<and> (\<exists>j < n. x = a + of_nat (i + j)) then None else slot c s' f' x)"
proof (induction n arbitrary: i c)
  case (Suc n)
  have ex: "(\<exists>j < Suc n. x = a + of_nat (i + j)) \<longleftrightarrow>
      x = a + of_nat i \<or> (\<exists>j < n. x = a + of_nat (Suc i + j))"
    by (auto simp: less_Suc_eq_0_disj)
  show ?case unfolding DeleteRange_loop.simps Suc.IH ex by (auto simp: slot_def)
qed simp

lemma slot_DeleteRange:
  "slot (DeleteRange c s f a q) s' f' x =
     (if s' = s \<and> f' = f \<and> in_range a (unat q) x then None else slot c s' f' x)"
  using unat_u16_less [of q] by (auto simp: DeleteRange_def DeleteRange_loop_slot in_range_iff)

lemma DeleteRange_frame [simp]:
  "defaultTTL (DeleteRange c s f a q) = defaultTTL c"
  "keepStale (DeleteRange c s f a q) = keepStale c"
  "done_closed (DeleteRange c s f a q) = done_closed c"
proof -
  have "defaultTTL (DeleteRange_loop s f a i n c) = defaultTTL c \<and>
      keepStale (DeleteRange_loop s f a i n c) = keepStale c \<and>
      done_closed (DeleteRange_loop s f a i n c) = done_closed c" for i n
    by (induction n arbitrary: i c) auto
  then show "defaultTTL (DeleteRange c s f a q) = defaultTTL c"
    "keepStale (DeleteRange c s f a q) = keepStale c"
    "done_closed (DeleteRange c s f a q) = done_closed c"
    by (simp_all add: DeleteRange_def)
qed

text \<open>A range lookup succeeds exactly when every entry is there and fresh.\<close>

lemma GetRange_loop_iff:
  "GetRange_loop now c s f a i n = Some vs \<longleftrightarrow>
     length vs = n \<and>
     (\<forall>j < n. \<exists>e. slot c s f (a + of_nat (i + j)) = Some e \<and> \<not> IsExpired (now (i + j)) e \<and>
        vs ! j = entData e)"
proof (induction n arbitrary: i vs)
  case (Suc n)
  show ?case
    by (cases vs)
      (auto simp: Suc.IH slot_def All_less_Suc2 add.left_commute split: option.split)
qed auto

lemma GetRangeStale_loop_iff:
  "GetRangeStale_loop c s f a i n = Some vs \<longleftrightarrow>
     length vs = n \<and>
     (\<forall>j < n. \<exists>e. slot c s f (a + of_nat (i + j)) = Some e \<and> vs ! j = entData e)"
proof (induction n arbitrary: i vs)
  case (Suc n)
  show ?case
    by (cases vs)
      (auto simp: Suc.IH slot_def All_less_Suc2 add.left_commute split: option.split)
qed auto

lemma GetRange_iff:
  "GetRange now c s f a q = Some vs \<longleftrightarrow>
     q \<noteq> 0 \<and> length vs = unat q \<and>
     (\<forall>j < unat q. \<exists>e. slot c s f (a + of_nat j) = Some e \<and> \<not> IsExpired (now j) e \<and>
        vs ! j = entData e)"
  by (simp add: GetRange_def GetRange_loop_iff)

lemma GetRangeStale_iff:
  "GetRangeStale c s f a q = Some vs \<longleftrightarrow>
     q \<noteq> 0 \<and> length vs = unat q \<and>
     (\<forall>j < unat q. \<exists>e. slot c s f (a + of_nat j) = Some e \<and> vs ! j = entData e)"
  by (simp add: GetRangeStale_def GetRangeStale_loop_iff)

lemma GetRange_stale: "GetRange now c s f a q = Some vs \<Longrightarrow> GetRangeStale c s f a q = Some vs"
  by (auto simp: GetRange_iff GetRangeStale_iff)

text \<open>An entry is fresh from the moment it is stored until its TTL has passed.\<close>

lemma fresh_until_ttl:
  assumes "0 \<le> now - Timestamp e" and "now - Timestamp e \<le> sint (TTL e)"
  shows "\<not> IsExpired now e"
  using assms by (simp add: IsExpired_def sint_time_sub)

lemma expired_after_ttl:
  assumes "now - Timestamp e > sint (TTL e)" and "sint (TTL e) < 2 ^ 63 - 1"
  shows "IsExpired now e"
  using assms sint_range [of "TTL e"] by (simp add: IsExpired_def sint_time_sub)

lemma IsExpired_mono: "IsExpired now e \<Longrightarrow> now \<le> now' \<Longrightarrow> IsExpired now' e"
  by (auto simp: IsExpired_def sint_time_sub)

subsection \<open>The contract of the value store\<close>

text \<open>
  What the proxy relies on: a range lookup is defined by the values at its addresses, storing a
  range sets exactly its addresses, dropping a range clears exactly its addresses.
\<close>

locale value_store =
  fixes value_at :: "'c \<Rightarrow> byte \<Rightarrow> byte \<Rightarrow> u16 \<Rightarrow> bytes option"
    and fetch :: "'c \<Rightarrow> byte \<Rightarrow> byte \<Rightarrow> u16 \<Rightarrow> u16 \<Rightarrow> bytes list option"
    and store :: "'c \<Rightarrow> byte \<Rightarrow> byte \<Rightarrow> u16 \<Rightarrow> bytes list \<Rightarrow> 'c"
    and discard :: "'c \<Rightarrow> byte \<Rightarrow> byte \<Rightarrow> u16 \<Rightarrow> u16 \<Rightarrow> 'c"
  assumes fetch_iff: "fetch c s f a q = Some vs \<longleftrightarrow>
      q \<noteq> 0 \<and> length vs = unat q \<and> (\<forall>j < unat q. value_at c s f (a + of_nat j) = Some (vs ! j))"
    and value_at_store: "length vs \<le> 65536 \<Longrightarrow> value_at (store c s f a vs) s' f' x =
      (if s' = s \<and> f' = f \<and> in_range a (length vs) x then Some (vs ! unat (x - a))
       else value_at c s' f' x)"
    and value_at_discard: "value_at (discard c s f a q) s' f' x =
      (if s' = s \<and> f' = f \<and> in_range a (unat q) x then None else value_at c s' f' x)"
begin

lemma fetch_store_sub:
  assumes "length vs \<le> 65536" and "i + unat q \<le> length vs" and "q \<noteq> 0"
  shows "fetch (store c s f a vs) s f (a + of_nat i) q = Some (take (unat q) (drop i vs))"
  unfolding fetch_iff
proof (intro conjI allI impI)
  fix j assume j: "j < unat q"
  have "unat ((a + of_nat (i + j)) - a) = i + j"
    using assms(1,2) j by (intro offset_of_index) simp
  moreover have "i + j < length vs" using assms(2) j by simp
  ultimately show "value_at (store c s f a vs) s f (a + of_nat i + of_nat j) =
      Some (take (unat q) (drop i vs) ! j)"
    using assms(1) j by (simp add: value_at_store in_range_def add.assoc)
qed (use assms in auto)

lemma fetch_discard_overlap:
  assumes "in_range a (unat q) x" and "in_range b (unat n) x"
  shows "fetch (discard c s f b n) s f a q = None"
proof (cases "fetch (discard c s f b n) s f a q")
  case (Some vs)
  obtain j where "j < unat q" "x = a + of_nat j"
    using assms(1) unat_u16_less [of q] by (auto simp: in_range_iff)
  with Some assms(2) show ?thesis by (auto simp: fetch_iff value_at_discard)
qed simp

end

text \<open>The cache's range operations meet the contract when the TTL is left aside.\<close>

definition value_in :: "cache \<Rightarrow> byte \<Rightarrow> byte \<Rightarrow> u16 \<Rightarrow> bytes option" where
  "value_in c s f a = map_option entData (slot c s f a)"

interpretation kept: value_store value_in GetRangeStale "SetRange now" DeleteRange for now
  by unfold_locales
    (auto simp: GetRangeStale_iff value_in_def slot_SetRange slot_DeleteRange)

text \<open>Freshness carries the contract over to the lookup with TTL.\<close>

lemma GetRange_after_SetRange:
  assumes "length vs \<le> 65536" and "i + unat q \<le> length vs" and "q \<noteq> 0"
    and "\<forall>j < unat q. t \<le> clock j \<and> clock j - t \<le> sint (defaultTTL c)"
  shows "GetRange clock (SetRange t c s f a vs) s f (a + of_nat i) q = Some (take (unat q) (drop i vs))"
proof -
  let ?c = "SetRange t c s f a vs"
  from kept.fetch_store_sub [OF assms(1,2,3)]
  have "GetRangeStale ?c s f (a + of_nat i) q = Some (take (unat q) (drop i vs))" .
  moreover have "\<not> IsExpired (clock j) e"
    if "j < unat q" and e: "slot ?c s f (a + of_nat i + of_nat j) = Some e" for j e
  proof (rule fresh_until_ttl)
    have "in_range a (length vs) (a + of_nat i + of_nat j)"
      using assms(1,2) that(1) offset_of_index [of "i + j" a]
      by (simp add: in_range_def add.assoc)
    with e assms(1) have "Timestamp e = t" "TTL e = defaultTTL c" by (auto simp: slot_SetRange)
    with assms(4) that(1) show "0 \<le> clock j - Timestamp e" "clock j - Timestamp e \<le> sint (TTL e)"
      by auto
  qed
  ultimately show ?thesis unfolding GetRange_iff GetRangeStale_iff by blast
qed

subsection \<open>Lookup, invalidation and cleanup\<close>

text \<open>
  A range lookup answers from the cache exactly when the quantity is not zero and every
  register of the range has an entry that had not outlived its TTL when it was looked at; the
  answer is the stored data, one value per register, in order.
\<close>

lemma GetRange_complete:
  "GetRange clock c s f a q = Some vs \<longleftrightarrow>
     q \<noteq> 0 \<and> length vs = unat q \<and>
     (\<forall>j < unat q. \<exists>e. entries c (RegKey s f (a + of_nat j)) = Some e \<and>
        sint (time_sub (clock j) (Timestamp e)) \<le> sint (TTL e) \<and> vs ! j = entData e)"
  by (simp add: GetRange_iff slot_def IsExpired_def not_less)

text \<open>
  Invalidation is exact. \<open>DeleteRange\<close> removes the value of every register in the range
  for the given slave and function code, and of no other register, slave or function code.
\<close>

lemma DeleteRange_exact:
  "GetStale (DeleteRange c s f a q) (RegKey s' f' x) =
     (if s' = s \<and> f' = f \<and> (\<exists>i < unat q. x = a + of_nat i) then None
      else GetStale c (RegKey s' f' x))"
proof -
  have g: "GetStale c' (RegKey s' f' x) = value_in c' s' f' x" for c'
    by (simp add: GetStale_def value_in_def slot_def split: option.split)
  show ?thesis
    unfolding g kept.value_at_discard using unat_u16_less [of q] by (simp add: in_range_iff)
qed

text \<open>
  The cleanup pass cannot be seen by readers. It removes nothing when stale serving is on;
  otherwise any lookup whose clock readings are not earlier than those of the pass gives the
  same answer with and without it, and what is left has not expired.
\<close>

lemma cleanup_invisible:
  assumes "\<forall>k j. now k \<le> later j"
  shows "GetRange later (cleanupOnce now c) s f a q = GetRange later c s f a q \<and>
    (keepStale c \<longrightarrow> cleanupOnce now c = c) \<and>
    (\<not> keepStale c \<longrightarrow> (\<forall>k e. entries (cleanupOnce now c) k = Some e \<longrightarrow> \<not> IsExpired (now k) e))"
proof -
  have loop: "GetRange_loop later (cleanupOnce now c) s f a i n = GetRange_loop later c s f a i n" for i n
  proof (induction n arbitrary: i)
    case (Suc n)
    then show ?case using assms
      by (auto simp: cleanupOnce_def split: option.split dest: IsExpired_mono)
  qed simp
  then have "GetRange later (cleanupOnce now c) s f a q = GetRange later c s f a q"
    by (simp add: GetRange_def)
  moreover have "keepStale c \<longrightarrow> cleanupOnce now c = c" by (simp add: cleanupOnce_def)
  moreover have "\<not> keepStale c \<longrightarrow>
      (\<forall>k e. entries (cleanupOnce now c) k = Some e \<longrightarrow> \<not> IsExpired (now k) e)"
    by (auto simp: cleanupOnce_def split: option.splits if_splits)
  ultimately show ?thesis by blast
qed

end
