(* ===== verification/Cache_Coalesce.thy ===== *)
theory Cache_Coalesce
  imports Go_Errors Cache_Store
begin

text \<open>
  Request coalescing of \<^verbatim>\<open>internal/cache/cache.go\<close>, twice. \<open>CoalesceWithStatus\<close>
  is the function as one caller runs it, with what the caller observes of the other goroutines
  in each iteration of its loop as an argument. \<open>cstep\<close> is the interleaving of any number of
  callers over the shared table of in-flight requests, one rule per section of the source between
  two points where another goroutine can run. The lemmas give the invariant of the table and
  what it promises: one fetch per key at a time, followers get the leader's result, a follower
  never inherits a context error, nobody is stuck.
\<close>

subsection \<open>One caller\<close>

record coalesceResult =
  Coalesced :: bool
  Waited :: bool
  WaitDuration :: duration

datatype select_case = ReqDone | CtxDone goerror

text \<open>
  One iteration as the caller sees it: the context error at the top of the loop, whether the key
  was in flight, the context error after joining, which case the \<^verbatim>\<open>select\<close> took, how
  long the wait was, the context error after the leader finished, the leader's error and result,
  and the context error after the caller's own fetch.
\<close>

record coalesce_iter =
  ctxTop :: "goerror option"
  inFlight :: bool
  ctxJoined :: "goerror option"
  selected :: select_case
  waitedFor :: duration
  ctxAfterWait :: "goerror option"
  leaderErr :: "goerror option"
  leaderResult :: bytes
  ctxAfterFetch :: "goerror option"

definition isContextError :: "goerror \<Rightarrow> bool" where
  "isContextError e \<longleftrightarrow> errorsIs e Canceled \<or> errorsIs e DeadlineExceeded"

text \<open>
  The loop ends with \<open>None\<close> when the given iterations are used up: the caller is still waiting.
\<close>

fun CoalesceWithStatus ::
  "coalesce_iter list \<Rightarrow> bool \<Rightarrow> duration \<Rightarrow> ('s \<Rightarrow> (goerror + bytes) \<times> 's) \<Rightarrow> 's \<Rightarrow>
     (((goerror + bytes) \<times> coalesceResult) \<times> 's) option" where
  "CoalesceWithStatus [] waited totalWait fetch s = None"
| "CoalesceWithStatus (it # its) waited totalWait fetch s =
     (case ctxTop it of
        Some err \<Rightarrow>
          Some ((Inl (if waited then attributedCoalescingError err False totalWait else err),
                 \<lparr>Coalesced = False, Waited = waited, WaitDuration = totalWait\<rparr>), s)
      | None \<Rightarrow>
          if inFlight it then
            (let totalWait' = totalWait + waitedFor it;
                 follower = \<lparr>Coalesced = True, Waited = True, WaitDuration = totalWait'\<rparr>;
                 fail = (\<lambda>err. Some ((Inl (attributedCoalescingError err True totalWait'), follower), s))
             in case ctxJoined it of
                  Some err \<Rightarrow> fail err
                | None \<Rightarrow>
                    (case selected it of
                       CtxDone err \<Rightarrow> fail err
                     | ReqDone \<Rightarrow>
                         (case ctxAfterWait it of
                            Some err \<Rightarrow> fail err
                          | None \<Rightarrow>
                              (case leaderErr it of
                                 Some e \<Rightarrow>
                                   if isContextError e
                                   then CoalesceWithStatus its True totalWait' fetch s
                                   else fail e
                               | None \<Rightarrow> Some ((Inr (leaderResult it), follower), s)))))
          else
            (let (r, s') = fetch s;
                 leader = \<lparr>Coalesced = False, Waited = waited, WaitDuration = totalWait\<rparr>;
                 fail = (\<lambda>err. Some ((Inl (if waited then attributedCoalescingError err False totalWait
                                           else err), leader), s'))
             in case r of
                  Inl err \<Rightarrow> fail err
                | Inr data \<Rightarrow>
                    (case ctxAfterFetch it of
                       Some err \<Rightarrow> fail err
                     | None \<Rightarrow> Some ((Inr data, leader), s'))))"

text \<open>\<^verbatim>\<open>Coalesce\<close> drops the attribution.\<close>

definition Coalesce ::
  "coalesce_iter list \<Rightarrow> ('s \<Rightarrow> (goerror + bytes) \<times> 's) \<Rightarrow> 's \<Rightarrow> ((goerror + bytes) \<times> 's) option" where
  "Coalesce its fetch s =
     map_option (\<lambda>((r, cr), s'). (r, s')) (CoalesceWithStatus its False 0 fetch s)"

subsection \<open>Any number of callers\<close>

text \<open>
  An in-flight request object; \<open>rkey\<close> is the key it was created under (not a field of the
  source, used to state the invariant).
\<close>

record inflightRequest =
  rdone :: bool
  rresult :: bytes
  rerr :: "goerror option"
  followers :: nat
  rkey :: string

datatype pc =
    Idle
  | Top string bool duration
  | Locking string bool duration
  | Joined string nat duration
  | Leading string nat bool duration
  | Fetched string nat bool duration bytes "goerror option"
  | Published string nat bool duration bytes "goerror option"
  | Removed string nat bool duration bytes "goerror option"
  | Ret string "goerror + bytes" coalesceResult

text \<open>
  \<open>fetches\<close> records every completed fetch (object, key, data, error); it is a history of the
  run, not a field of the source.
\<close>

record cstate =
  inflight :: "string \<rightharpoonup> nat"
  reqs :: "nat \<rightharpoonup> inflightRequest"
  procs :: "nat \<Rightarrow> pc"
  ctxs :: "nat \<Rightarrow> goerror option"
  fetches :: "(nat \<times> string \<times> bytes \<times> goerror option) set"

definition leader_return :: "bool \<Rightarrow> duration \<Rightarrow> bytes \<Rightarrow> goerror option \<Rightarrow> goerror + bytes" where
  "leader_return w d data err = (case err of
     Some e \<Rightarrow> Inl (if w then attributedCoalescingError e False d else e)
   | None \<Rightarrow> Inr data)"

inductive cstep :: "nat \<Rightarrow> cstate \<Rightarrow> cstate \<Rightarrow> bool" where
  call: "procs s p = Idle \<Longrightarrow> cstep p s (s\<lparr>procs := (procs s)(p := Top k False 0)\<rparr>)"
| expire: "ctxs s p = None \<Longrightarrow> e \<in> {Canceled, DeadlineExceeded} \<Longrightarrow>
    cstep p s (s\<lparr>ctxs := (ctxs s)(p := Some e)\<rparr>)"
| top_ctx: "procs s p = Top k w d \<Longrightarrow> ctxs s p = Some e \<Longrightarrow>
    cstep p s (s\<lparr>procs := (procs s)(p := Ret k
      (Inl (if w then attributedCoalescingError e False d else e))
      \<lparr>Coalesced = False, Waited = w, WaitDuration = d\<rparr>)\<rparr>)"
| top_go: "procs s p = Top k w d \<Longrightarrow> ctxs s p = None \<Longrightarrow>
    cstep p s (s\<lparr>procs := (procs s)(p := Locking k w d)\<rparr>)"
| lead: "procs s p = Locking k w d \<Longrightarrow> inflight s k = None \<Longrightarrow> reqs s rid = None \<Longrightarrow>
    cstep p s (s\<lparr>procs := (procs s)(p := Leading k rid w d),
      inflight := (inflight s)(k \<mapsto> rid),
      reqs := (reqs s)(rid \<mapsto> \<lparr>rdone = False, rresult = [], rerr = None, followers = 0, rkey = k\<rparr>)\<rparr>)"
| join: "procs s p = Locking k w d \<Longrightarrow> inflight s k = Some rid \<Longrightarrow> reqs s rid = Some r \<Longrightarrow>
    cstep p s (s\<lparr>procs := (procs s)(p := Joined k rid d),
      reqs := (reqs s)(rid \<mapsto> r\<lparr>followers := Suc (followers r)\<rparr>)\<rparr>)"
| join_ctx: "procs s p = Joined k rid d \<Longrightarrow> ctxs s p = Some e \<Longrightarrow>
    cstep p s (s\<lparr>procs := (procs s)(p := Ret k (Inl (attributedCoalescingError e True (d + x)))
      \<lparr>Coalesced = True, Waited = True, WaitDuration = d + x\<rparr>)\<rparr>)"
| join_data: "procs s p = Joined k rid d \<Longrightarrow> ctxs s p = None \<Longrightarrow> reqs s rid = Some r \<Longrightarrow>
    rdone r \<Longrightarrow> rerr r = None \<Longrightarrow>
    cstep p s (s\<lparr>procs := (procs s)(p := Ret k (Inr (rresult r))
      \<lparr>Coalesced = True, Waited = True, WaitDuration = d + x\<rparr>)\<rparr>)"
| join_err: "procs s p = Joined k rid d \<Longrightarrow> ctxs s p = None \<Longrightarrow> reqs s rid = Some r \<Longrightarrow>
    rdone r \<Longrightarrow> rerr r = Some e \<Longrightarrow> \<not> isContextError e \<Longrightarrow>
    cstep p s (s\<lparr>procs := (procs s)(p := Ret k (Inl (attributedCoalescingError e True (d + x)))
      \<lparr>Coalesced = True, Waited = True, WaitDuration = d + x\<rparr>)\<rparr>)"
| join_retry: "procs s p = Joined k rid d \<Longrightarrow> ctxs s p = None \<Longrightarrow> reqs s rid = Some r \<Longrightarrow>
    rdone r \<Longrightarrow> rerr r = Some e \<Longrightarrow> isContextError e \<Longrightarrow>
    cstep p s (s\<lparr>procs := (procs s)(p := Top k True (d + x))\<rparr>)"
| fetch: "procs s p = Leading k rid w d \<Longrightarrow>
    err = (case ferr of None \<Rightarrow> ctxs s p | Some e \<Rightarrow> Some e) \<Longrightarrow>
    cstep p s (s\<lparr>procs := (procs s)(p := Fetched k rid w d data err),
      fetches := insert (rid, k, data, err) (fetches s)\<rparr>)"
| publish: "procs s p = Fetched k rid w d data err \<Longrightarrow> reqs s rid = Some r \<Longrightarrow>
    cstep p s (s\<lparr>procs := (procs s)(p := Published k rid w d data err),
      reqs := (reqs s)(rid \<mapsto> r\<lparr>rresult := data, rerr := err\<rparr>)\<rparr>)"
| remove: "procs s p = Published k rid w d data err \<Longrightarrow>
    cstep p s (s\<lparr>procs := (procs s)(p := Removed k rid w d data err),
      inflight := (inflight s)(k := None)\<rparr>)"
| signal: "procs s p = Removed k rid w d data err \<Longrightarrow> reqs s rid = Some r \<Longrightarrow>
    cstep p s (s\<lparr>procs := (procs s)(p := Ret k (leader_return w d data err)
        \<lparr>Coalesced = False, Waited = w, WaitDuration = d\<rparr>),
      reqs := (reqs s)(rid \<mapsto> r\<lparr>rdone := True\<rparr>)\<rparr>)"

definition cinit :: cstate where
  "cinit = \<lparr>inflight = Map.empty, reqs = Map.empty, procs = (\<lambda>_. Idle), ctxs = (\<lambda>_. None),
            fetches = {}\<rparr>"

inductive creachable :: "cstate \<Rightarrow> bool" where
  start: "creachable cinit"
| step: "creachable s \<Longrightarrow> cstep p s t \<Longrightarrow> creachable t"

subsection \<open>The invariant\<close>

text \<open>\<open>leads\<close>: between entering the key into the table and taking it out again.
  \<open>holds\<close>: until the channel is closed.\<close>

fun leads :: "pc \<Rightarrow> (string \<times> nat) option" where
  "leads (Leading k rid w d) = Some (k, rid)"
| "leads (Fetched k rid w d x e) = Some (k, rid)"
| "leads (Published k rid w d x e) = Some (k, rid)"
| "leads _ = None"

fun holds :: "pc \<Rightarrow> (string \<times> nat) option" where
  "holds (Removed k rid w d x e) = Some (k, rid)"
| "holds c = leads c"

definition table_inv :: "cstate \<Rightarrow> bool" where
  "table_inv s \<longleftrightarrow>
     (\<forall>k rid. inflight s k = Some rid \<longrightarrow> (\<exists>p. leads (procs s p) = Some (k, rid))) \<and>
     (\<forall>p k rid. leads (procs s p) = Some (k, rid) \<longrightarrow> inflight s k = Some rid) \<and>
     (\<forall>p q k k' rid. holds (procs s p) = Some (k, rid) \<longrightarrow> holds (procs s q) = Some (k', rid) \<longrightarrow> p = q)"

definition objects_inv :: "cstate \<Rightarrow> bool" where
  "objects_inv s \<longleftrightarrow>
     (\<forall>p k rid. holds (procs s p) = Some (k, rid) \<longrightarrow>
        (\<exists>r. reqs s rid = Some r \<and> rkey r = k \<and> \<not> rdone r)) \<and>
     (\<forall>p k rid d. procs s p = Joined k rid d \<longrightarrow>
        (\<exists>r. reqs s rid = Some r \<and> rkey r = k \<and> (rdone r \<or> (\<exists>q. holds (procs s q) = Some (k, rid)))))"

text \<open>The outcome a leader carries after its fetch, and after publishing it.\<close>

fun outcome :: "pc \<Rightarrow> (nat \<times> string \<times> bytes \<times> goerror option) option" where
  "outcome (Fetched k rid w d x e) = Some (rid, k, x, e)"
| "outcome (Published k rid w d x e) = Some (rid, k, x, e)"
| "outcome (Removed k rid w d x e) = Some (rid, k, x, e)"
| "outcome _ = None"

fun published :: "pc \<Rightarrow> (nat \<times> bytes \<times> goerror option) option" where
  "published (Published k rid w d x e) = Some (rid, x, e)"
| "published (Removed k rid w d x e) = Some (rid, x, e)"
| "published _ = None"

definition history_inv :: "cstate \<Rightarrow> bool" where
  "history_inv s \<longleftrightarrow>
     (\<forall>p k rid w d. procs s p = Leading k rid w d \<longrightarrow> (\<forall>k' x e. (rid, k', x, e) \<notin> fetches s)) \<and>
     (\<forall>p o1. outcome (procs s p) = Some o1 \<longrightarrow> o1 \<in> fetches s) \<and>
     (\<forall>rid k x e. (rid, k, x, e) \<in> fetches s \<longrightarrow> reqs s rid \<noteq> None) \<and>
     (\<forall>rid k x e k' x' e'. (rid, k, x, e) \<in> fetches s \<longrightarrow> (rid, k', x', e') \<in> fetches s \<longrightarrow>
        (k, x, e) = (k', x', e'))"

definition results_inv :: "cstate \<Rightarrow> bool" where
  "results_inv s \<longleftrightarrow>
     (\<forall>p rid x e r. published (procs s p) = Some (rid, x, e) \<longrightarrow> reqs s rid = Some r \<longrightarrow>
        rresult r = x \<and> rerr r = e) \<and>
     (\<forall>rid r. reqs s rid = Some r \<longrightarrow> rdone r \<longrightarrow> (rid, rkey r, rresult r, rerr r) \<in> fetches s)"

text \<open>What a caller that has returned was given.\<close>

definition ret_ok :: "cstate \<Rightarrow> nat \<Rightarrow> string \<Rightarrow> goerror + bytes \<Rightarrow> coalesceResult \<Rightarrow> bool" where
  "ret_ok s p k r cr = (case r of
     Inr x \<Rightarrow> \<exists>rid. (rid, k, x, None) \<in> fetches s
   | Inl e \<Rightarrow> Coalesced cr \<longrightarrow>
        (\<exists>e0. e = attributedCoalescingError e0 True (WaitDuration cr) \<and>
           (isContextError e0 \<longrightarrow> ctxs s p \<noteq> None) \<and>
           (\<not> isContextError e0 \<longrightarrow> (\<exists>rid x. (rid, k, x, Some e0) \<in> fetches s))))"

definition returns_inv :: "cstate \<Rightarrow> bool" where
  "returns_inv s \<longleftrightarrow> (\<forall>p k r cr. procs s p = Ret k r cr \<longrightarrow> ret_ok s p k r cr)"

subsection \<open>Every step keeps the invariant\<close>

lemma isContextError_ctx [simp]: "isContextError Canceled" "isContextError DeadlineExceeded"
  by (simp_all add: isContextError_def errorsIs_def)

text \<open>A context error is one of the two.\<close>

definition ctxs_inv :: "cstate \<Rightarrow> bool" where
  "ctxs_inv s \<longleftrightarrow> (\<forall>p e. ctxs s p = Some e \<longrightarrow> e \<in> {Canceled, DeadlineExceeded})"

lemma ctxs_inv_step: "cstep p s t \<Longrightarrow> ctxs_inv s \<Longrightarrow> ctxs_inv t"
  by (induction rule: cstep.induct) (auto simp: ctxs_inv_def)

lemma holds_leads: "leads c = Some x \<Longrightarrow> holds c = Some x"
  by (cases c) auto

lemma table_invD:
  "table_inv s \<Longrightarrow> inflight s k = Some rid \<Longrightarrow> \<exists>p. leads (procs s p) = Some (k, rid)"
  "table_inv s \<Longrightarrow> leads (procs s p) = Some (k, rid) \<Longrightarrow> inflight s k = Some rid"
  "table_inv s \<Longrightarrow> holds (procs s p) = Some (k, rid) \<Longrightarrow> holds (procs s q) = Some (k', rid) \<Longrightarrow> p = q"
  unfolding table_inv_def by blast+

lemma table_invI:
  assumes "\<And>k rid. inflight s k = Some rid \<Longrightarrow> \<exists>p. leads (procs s p) = Some (k, rid)"
    and "\<And>p k rid. leads (procs s p) = Some (k, rid) \<Longrightarrow> inflight s k = Some rid"
    and "\<And>p q k k' rid. holds (procs s p) = Some (k, rid) \<Longrightarrow> holds (procs s q) = Some (k', rid) \<Longrightarrow> p = q"
  shows "table_inv s"
  unfolding table_inv_def using assms by blast

text \<open>
  Most steps are quiet: the process that moves leads and holds what it did before, and the table
  is the same.
\<close>

definition quiet :: "cstate \<Rightarrow> cstate \<Rightarrow> bool" where
  "quiet s t \<longleftrightarrow> inflight t = inflight s \<and>
     (\<forall>q. leads (procs t q) = leads (procs s q) \<and> holds (procs t q) = holds (procs s q)) \<and>
     (\<forall>rid r. reqs s rid = Some r \<longrightarrow>
        (\<exists>r'. reqs t rid = Some r' \<and> rkey r' = rkey r \<and> rdone r' = rdone r)) \<and>
     (\<forall>q k rid d. procs t q = Joined k rid d \<longrightarrow> procs s q = Joined k rid d \<or> inflight s k = Some rid)"

lemma quiet_table_inv: "quiet s t \<Longrightarrow> table_inv s \<Longrightarrow> table_inv t"
  by (simp add: quiet_def table_inv_def)

lemma cstep_cases3:
  assumes "cstep p s t"
  obtains (quiet) "quiet s t"
  | (lead) k w d rid where "procs s p = Locking k w d" "inflight s k = None" "reqs s rid = None"
      "procs t = (procs s)(p := Leading k rid w d)" "inflight t = (inflight s)(k \<mapsto> rid)"
      "reqs t = (reqs s)(rid \<mapsto> \<lparr>rdone = False, rresult = [], rerr = None, followers = 0, rkey = k\<rparr>)"
  | (remove) k rid w d x e where "procs s p = Published k rid w d x e"
      "procs t = (procs s)(p := Removed k rid w d x e)" "inflight t = (inflight s)(k := None)"
      "reqs t = reqs s"
  | (signal) k rid w d x e cr r where "procs s p = Removed k rid w d x e"
      "procs t = (procs s)(p := Ret k (leader_return w d x e) cr)" "inflight t = inflight s"
      "reqs s rid = Some r" "reqs t = (reqs s)(rid \<mapsto> r\<lparr>rdone := True\<rparr>)"
  using assms by (induction rule: cstep.induct) (auto simp: quiet_def)

lemma table_inv_lead:
  assumes inv: "table_inv s" "objects_inv s" and lead: "procs s p = Locking k w d" "inflight s k = None" "reqs s rid = None"
      "procs t = (procs s)(p := Leading k rid w d)" "inflight t = (inflight s)(k \<mapsto> rid)"
      "reqs t = (reqs s)(rid \<mapsto> \<lparr>rdone = False, rresult = [], rerr = None, followers = 0, rkey = k\<rparr>)"
  shows "table_inv t"
proof -
  have l: "leads (procs t q) = (if q = p then Some (k, rid) else leads (procs s q))" for q
    using lead(4) by simp
  have h: "holds (procs t q) = (if q = p then Some (k, rid) else holds (procs s q))" for q
    using lead(4) by simp
  have new: "holds (procs s q) \<noteq> Some (k', rid)" for q k'
    using inv(2) lead(3) by (force simp: objects_inv_def)
  have lp: "leads (procs s p) = None" using lead(1) by simp
  show ?thesis
  proof (rule table_invI)
    fix k' r assume "inflight t k' = Some r"
    then show "\<exists>q. leads (procs t q) = Some (k', r)"
      using lead(5) l lp table_invD(1) [OF inv(1), of k' r] by (cases "k' = k") force+
  next
    fix q k' r assume "leads (procs t q) = Some (k', r)"
    then show "inflight t k' = Some r"
      using lead(2,5) l table_invD(2) [OF inv(1), of q k' r] by (auto split: if_splits)
  next
    fix q q' k1 k2 r assume "holds (procs t q) = Some (k1, r)" "holds (procs t q') = Some (k2, r)"
    then show "q = q'"
      using h new table_invD(3) [OF inv(1), of q k1 r q' k2] by (auto split: if_splits)
  qed
qed

lemma table_inv_remove:
  assumes inv: "table_inv s" "objects_inv s" and remove: "procs s p = Published k rid w d x e"
      "procs t = (procs s)(p := Removed k rid w d x e)" "inflight t = (inflight s)(k := None)"
      "reqs t = reqs s"
  shows "table_inv t"
proof -
  have lp: "leads (procs s p) = Some (k, rid)" "holds (procs s p) = Some (k, rid)"
    using remove(1) by simp_all
  have l: "leads (procs t q) = (if q = p then None else leads (procs s q))" for q
    using remove(2) by simp
  have h: "holds (procs t q) = holds (procs s q)" for q using remove(1,2) by simp
  have only: "q = p" if "leads (procs s q) = Some (k, r)" for q r
  proof -
    have "r = rid" using table_invD(2) [OF inv(1) that] table_invD(2) [OF inv(1) lp(1)] by simp
    with holds_leads [OF that] lp(2) show ?thesis by (auto dest: table_invD(3) [OF inv(1)])
  qed
  show ?thesis
  proof (rule table_invI)
    fix k' r assume "inflight t k' = Some r"
    then have "k' \<noteq> k" "inflight s k' = Some r" using remove(3) by (auto split: if_splits)
    then show "\<exists>q. leads (procs t q) = Some (k', r)"
      using l lp table_invD(1) [OF inv(1), of k' r] by force
  next
    fix q k' r assume "leads (procs t q) = Some (k', r)"
    then show "inflight t k' = Some r"
      using remove(3) l only [of q r] table_invD(2) [OF inv(1), of q k' r] by (auto split: if_splits)
  qed (use h table_invD(3) [OF inv(1)] in auto)
qed

lemma table_inv_step:
  assumes "cstep p s t" and inv: "table_inv s" "objects_inv s"
  shows "table_inv t"
  using assms(1)
proof (cases rule: cstep_cases3)
  case quiet
  then show ?thesis using inv by (rule_tac quiet_table_inv)
next
  case (lead k w d rid)
  from table_inv_lead [OF inv this] show ?thesis .
next
  case (remove k rid w d x e)
  from table_inv_remove [OF inv this] show ?thesis .
next
  case (signal k rid w d x e cr r)
  have l: "leads (procs t q) = leads (procs s q)" for q using signal(1,2) by simp
  have h: "holds (procs t q) = (if q = p then None else holds (procs s q))" for q
    using signal(2) by simp
  show ?thesis
    by (rule table_invI)
      (use l h signal(3) table_invD [OF inv(1)] in \<open>auto split: if_splits\<close>)
qed

lemma objects_invD:
  "objects_inv s \<Longrightarrow> holds (procs s p) = Some (k, rid) \<Longrightarrow>
     \<exists>r. reqs s rid = Some r \<and> rkey r = k \<and> \<not> rdone r"
  "objects_inv s \<Longrightarrow> procs s p = Joined k rid d \<Longrightarrow>
     \<exists>r. reqs s rid = Some r \<and> rkey r = k \<and> (rdone r \<or> (\<exists>q. holds (procs s q) = Some (k, rid)))"
  unfolding objects_inv_def by blast+

lemma objects_invI:
  assumes "\<And>p k rid. holds (procs s p) = Some (k, rid) \<Longrightarrow>
      \<exists>r. reqs s rid = Some r \<and> rkey r = k \<and> \<not> rdone r"
    and "\<And>p k rid d. procs s p = Joined k rid d \<Longrightarrow>
      \<exists>r. reqs s rid = Some r \<and> rkey r = k \<and> (rdone r \<or> (\<exists>q. holds (procs s q) = Some (k, rid)))"
  shows "objects_inv s"
  unfolding objects_inv_def using assms by blast

lemma inflight_object:
  assumes "table_inv s" "objects_inv s" "inflight s k = Some rid"
  shows "\<exists>r q. reqs s rid = Some r \<and> rkey r = k \<and> \<not> rdone r \<and> holds (procs s q) = Some (k, rid)"
  using table_invD(1) [OF assms(1,3)] objects_invD(1) [OF assms(2)] holds_leads by blast

lemma objects_inv_quiet:
  assumes inv: "table_inv s" "objects_inv s" and quiet: "quiet s t"
  shows "objects_inv t"
proof -
  from quiet have h: "holds (procs t q) = holds (procs s q)" for q by (simp add: quiet_def)
  have keep: "\<exists>r'. reqs t rid = Some r' \<and> rkey r' = rkey r \<and> rdone r' = rdone r"
    if "reqs s rid = Some r" for rid r using quiet that by (auto simp: quiet_def)
  show ?thesis
  proof (rule objects_invI)
    fix q k rid assume "holds (procs t q) = Some (k, rid)"
    then obtain r where "reqs s rid = Some r" "rkey r = k" "\<not> rdone r"
      using h objects_invD(1) [OF inv(2)] by metis
    then show "\<exists>r. reqs t rid = Some r \<and> rkey r = k \<and> \<not> rdone r" using keep by blast
  next
    fix q k rid d assume "procs t q = Joined k rid d"
    then have "procs s q = Joined k rid d \<or> inflight s k = Some rid" using quiet by (auto simp: quiet_def)
    then obtain r where "reqs s rid = Some r" "rkey r = k"
      "rdone r \<or> (\<exists>q. holds (procs s q) = Some (k, rid))"
      using objects_invD(2) [OF inv(2)] inflight_object [OF inv] by blast
    then show "\<exists>r. reqs t rid = Some r \<and> rkey r = k \<and> (rdone r \<or> (\<exists>q. holds (procs t q) = Some (k, rid)))"
      using keep h by metis
  qed
qed

lemma objects_inv_lead:
  assumes inv: "table_inv s" "objects_inv s" and lead: "procs s p = Locking k w d" "inflight s k = None" "reqs s rid = None"
      "procs t = (procs s)(p := Leading k rid w d)" "inflight t = (inflight s)(k \<mapsto> rid)"
      "reqs t = (reqs s)(rid \<mapsto> \<lparr>rdone = False, rresult = [], rerr = None, followers = 0, rkey = k\<rparr>)"
  shows "objects_inv t"
proof -
  have h: "holds (procs t q) = (if q = p then Some (k, rid) else holds (procs s q))" for q
    using lead(4) by simp
  have hp: "holds (procs s p) = None" using lead(1) by simp
  have keep: "reqs t x = Some r" if "reqs s x = Some r" for x r using that lead(3,6) by auto
  show ?thesis
  proof (rule objects_invI)
    fix q k' r' assume "holds (procs t q) = Some (k', r')"
    then show "\<exists>r. reqs t r' = Some r \<and> rkey r = k' \<and> \<not> rdone r"
      using h lead(3,6) objects_invD(1) [OF inv(2), of q k' r'] by (auto split: if_splits)
  next
    fix q k' r' d' assume "procs t q = Joined k' r' d'"
    then have "procs s q = Joined k' r' d'" using lead(4) by (auto split: if_splits)
    from objects_invD(2) [OF inv(2) this] show "\<exists>r. reqs t r' = Some r \<and> rkey r = k' \<and>
        (rdone r \<or> (\<exists>q. holds (procs t q) = Some (k', r')))"
      using keep h hp by (metis option.distinct(1))
  qed
qed

lemma objects_inv_remove:
  assumes inv: "table_inv s" "objects_inv s" and remove: "procs s p = Published k rid w d x e"
      "procs t = (procs s)(p := Removed k rid w d x e)" "inflight t = (inflight s)(k := None)"
      "reqs t = reqs s"
  shows "objects_inv t"
proof -
  have h: "holds (procs t q) = holds (procs s q)" for q using remove(1,2) by simp
  show ?thesis
  proof (rule objects_invI)
    fix q k' r' assume "holds (procs t q) = Some (k', r')"
    then show "\<exists>r. reqs t r' = Some r \<and> rkey r = k' \<and> \<not> rdone r"
      using h remove(4) objects_invD(1) [OF inv(2)] by metis
  next
    fix q k' r' d' assume "procs t q = Joined k' r' d'"
    then have "procs s q = Joined k' r' d'" using remove(2) by (auto split: if_splits)
    from objects_invD(2) [OF inv(2) this] show "\<exists>r. reqs t r' = Some r \<and> rkey r = k' \<and>
        (rdone r \<or> (\<exists>q. holds (procs t q) = Some (k', r')))"
      using h remove(4) by metis
  qed
qed

lemma objects_inv_signal:
  assumes inv: "table_inv s" "objects_inv s" and signal: "procs s p = Removed k rid w d x e"
      "procs t = (procs s)(p := Ret k (leader_return w d x e) cr)" "inflight t = inflight s"
      "reqs s rid = Some r" "reqs t = (reqs s)(rid \<mapsto> r\<lparr>rdone := True\<rparr>)"
  shows "objects_inv t"
proof -
  have h: "holds (procs t q) = (if q = p then None else holds (procs s q))" for q
    using signal(2) by simp
  have hp: "holds (procs s p) = Some (k, rid)" using signal(1) by simp
  show ?thesis
  proof (rule objects_invI)
    fix q k' r' assume "holds (procs t q) = Some (k', r')"
    then have q: "q \<noteq> p" "holds (procs s q) = Some (k', r')" using h by (auto split: if_splits)
    then have "r' \<noteq> rid" using table_invD(3) [OF inv(1) hp] by blast
    then show "\<exists>r. reqs t r' = Some r \<and> rkey r = k' \<and> \<not> rdone r"
      using objects_invD(1) [OF inv(2) q(2)] signal(5) by simp
  next
    fix q k' r' d' assume "procs t q = Joined k' r' d'"
    then have "procs s q = Joined k' r' d'" using signal(2) by (auto split: if_splits)
    from objects_invD(2) [OF inv(2) this] show "\<exists>r. reqs t r' = Some r \<and> rkey r = k' \<and>
        (rdone r \<or> (\<exists>q. holds (procs t q) = Some (k', r')))"
      using h hp signal(4,5) by (cases "r' = rid") (auto, metis prod.inject option.inject)
  qed
qed

lemma objects_inv_step:
  assumes "cstep p s t" and inv: "table_inv s" "objects_inv s"
  shows "objects_inv t"
  using assms(1)
proof (cases rule: cstep_cases3)
  case quiet
  from objects_inv_quiet [OF inv this] show ?thesis .
next
  case (lead k w d rid)
  from objects_inv_lead [OF inv this] show ?thesis .
next
  case (remove k rid w d x e)
  from objects_inv_remove [OF inv this] show ?thesis .
next
  case (signal k rid w d x e cr r)
  from objects_inv_signal [OF inv this] show ?thesis .
qed

lemma history_invD:
  "history_inv s \<Longrightarrow> procs s p = Leading k rid w d \<Longrightarrow> (rid, k', x, e) \<notin> fetches s"
  "history_inv s \<Longrightarrow> outcome (procs s p) = Some o1 \<Longrightarrow> o1 \<in> fetches s"
  "history_inv s \<Longrightarrow> (rid, k, x, e) \<in> fetches s \<Longrightarrow> reqs s rid \<noteq> None"
  "history_inv s \<Longrightarrow> (rid, k, x, e) \<in> fetches s \<Longrightarrow> (rid, k', x', e') \<in> fetches s \<Longrightarrow>
     (k, x, e) = (k', x', e')"
  unfolding history_inv_def by meson+

lemma history_inv_step:
  assumes "cstep p s t" and "table_inv s" "objects_inv s" "history_inv s"
  shows "history_inv t"
  using assms
proof (induction rule: cstep.induct)
  case (lead s p k w d rid)
  then have "(rid, k', x, e) \<notin> fetches s" for k' x e using history_invD(3) by blast
  with lead show ?case unfolding history_inv_def by (simp add: fun_upd_def)
next
  case (fetch s p k rid w d err err0 data)
  have h: "holds (procs s p) = Some (k, rid)" using fetch by simp
  have "q = p" if "procs s q = Leading k' rid w' d'" for q k' w' d'
    using table_invD(3) [OF fetch.prems(1) h, of q k'] that by simp
  moreover have "reqs s rid \<noteq> None" using objects_invD(1) [OF fetch.prems(2) h] by auto
  moreover have "(rid, k', x, e) \<notin> fetches s" for k' x e
    using history_invD(1) [OF fetch.prems(3) fetch.hyps(1)] by blast
  ultimately show ?case
    using fetch.prems(3) unfolding history_inv_def by (auto split: if_splits)
next
  case (publish s p k rid w d data err r)
  then have "(rid, k, data, err) \<in> fetches s" using history_invD(2) [of s p] by simp
  with publish.prems(3) show ?case unfolding history_inv_def by (auto split: if_splits)
next
  case (remove s p k rid w d data err)
  then have "(rid, k, data, err) \<in> fetches s" using history_invD(2) [of s p] by simp
  with remove.prems(3) show ?case unfolding history_inv_def by (auto split: if_splits)
qed (auto simp: history_inv_def split: if_splits)

lemma results_invD:
  "results_inv s \<Longrightarrow> published (procs s p) = Some (rid, x, e) \<Longrightarrow> reqs s rid = Some r \<Longrightarrow>
     rresult r = x \<and> rerr r = e"
  "results_inv s \<Longrightarrow> reqs s rid = Some r \<Longrightarrow> rdone r \<Longrightarrow> (rid, rkey r, rresult r, rerr r) \<in> fetches s"
  unfolding results_inv_def by blast+

lemma published_holds: "published c = Some (rid, x, e) \<Longrightarrow> \<exists>k. holds c = Some (k, rid)"
  by (cases c) auto

lemma results_inv_mono:
  assumes "results_inv s" and "\<And>q. published (procs t q) = published (procs s q)"
    and "\<And>rid r'. reqs t rid = Some r' \<Longrightarrow> \<exists>r. reqs s rid = Some r \<and> rresult r' = rresult r \<and>
      rerr r' = rerr r \<and> rdone r' = rdone r \<and> rkey r' = rkey r"
    and "fetches s \<subseteq> fetches t"
  shows "results_inv t"
  unfolding results_inv_def
proof (intro conjI allI impI)
  fix p rid x e r
  assume "published (procs t p) = Some (rid, x, e)" "reqs t rid = Some r"
  then show "rresult r = x" "rerr r = e"
    using assms(2,3) results_invD(1) [OF assms(1)] by metis+
next
  fix rid r
  assume "reqs t rid = Some r" "rdone r"
  then obtain r0 where "reqs s rid = Some r0" "rresult r = rresult r0" "rerr r = rerr r0" "rdone r0"
    "rkey r = rkey r0" using assms(3) by metis
  with results_invD(2) [OF assms(1), of rid r0] assms(4)
  show "(rid, rkey r, rresult r, rerr r) \<in> fetches t" by auto
qed

lemma results_inv_step:
  assumes "cstep p s t" and "table_inv s" "objects_inv s" "history_inv s" "results_inv s"
  shows "results_inv t"
  using assms
proof (induction rule: cstep.induct)
  case (lead s p k w d rid)
  have "published (procs s q) \<noteq> Some (rid, x, e)" for q x e
  proof
    assume "published (procs s q) = Some (rid, x, e)"
    then obtain k' where "holds (procs s q) = Some (k', rid)" using published_holds by blast
    from objects_invD(1) [OF lead.prems(2) this] lead.hyps(3) show False by simp
  qed
  with lead.prems(4) show ?case unfolding results_inv_def by (auto split: if_splits)
next
  case (publish s p k rid w d data err r)
  have h: "holds (procs s p) = Some (k, rid)" using publish.hyps by simp
  then have nd: "\<not> rdone r" using objects_invD(1) [OF publish.prems(2) h] publish.hyps(2) by auto
  have other: "q = p" if "published (procs s q) = Some (rid, x, e)" for q x e
    using published_holds [OF that] table_invD(3) [OF publish.prems(1) h] by blast
  show ?case
    using publish.prems(4) publish.hyps nd other unfolding results_inv_def
    by (auto split: if_splits)
next
  case (signal s p k rid w d data err r)
  have "rkey r = k" using objects_invD(1) [OF signal.prems(2), of p] signal.hyps by auto
  moreover have "rresult r = data" "rerr r = err"
    using results_invD(1) [OF signal.prems(4), of p] signal.hyps by auto
  moreover have "(rid, k, data, err) \<in> fetches s"
    using history_invD(2) [OF signal.prems(3), of p] signal.hyps by simp
  ultimately show ?case
    using signal.prems(4) signal.hyps unfolding results_inv_def by (auto split: if_splits)
qed (rule results_inv_mono, assumption, auto split: if_splits)+

lemma ret_ok_mono:
  assumes "ret_ok s q k r cr" and "fetches s \<subseteq> fetches t" and "ctxs s q \<noteq> None \<Longrightarrow> ctxs t q \<noteq> None"
  shows "ret_ok t q k r cr"
  using assms unfolding ret_ok_def by (cases r) (simp, blast)+

text \<open>A process that moves keeps every other caller's result valid.\<close>

lemma returns_inv_move:
  assumes "returns_inv s" and "procs t = (procs s)(p := c)" and "fetches s \<subseteq> fetches t"
    and "\<And>q. ctxs s q \<noteq> None \<Longrightarrow> ctxs t q \<noteq> None"
    and "\<And>k r cr. c = Ret k r cr \<Longrightarrow> ret_ok t p k r cr"
  shows "returns_inv t"
  unfolding returns_inv_def
proof (intro allI impI)
  fix q k r cr
  assume q: "procs t q = Ret k r cr"
  show "ret_ok t q k r cr"
  proof (cases "q = p")
    case True
    then show ?thesis using assms(2,5) q by simp
  next
    case False
    then have "ret_ok s q k r cr" using assms(1,2) q by (simp add: returns_inv_def)
    then show ?thesis using assms(3,4) by (rule ret_ok_mono)
  qed
qed

lemma returns_inv_step:
  assumes "cstep p s t" and "ctxs_inv s" "objects_inv s" "history_inv s" "results_inv s" "returns_inv s"
  shows "returns_inv t"
  using assms
proof (induction rule: cstep.induct)
  case (expire s p e)
  have "ret_ok (s\<lparr>ctxs := (ctxs s)(p := Some e)\<rparr>) q k r cr" if "procs s q = Ret k r cr" for q k r cr
  proof (rule ret_ok_mono)
    show "ret_ok s q k r cr" using expire.prems(5) that unfolding returns_inv_def by blast
  qed auto
  then show ?case by (simp add: returns_inv_def)
next
  case (join_ctx s p k rid d e x)
  then have "e = Canceled \<or> e = DeadlineExceeded" unfolding ctxs_inv_def by blast
  then have "isContextError e" by auto
  with join_ctx.hyps(2) show ?case
    by (intro returns_inv_move [OF join_ctx.prems(5), where p = p])
      (auto simp: ret_ok_def)
next
  case (join_data s p k rid d r x)
  then have "(rid, k, rresult r, None) \<in> fetches s"
    using results_invD(2) [of s rid r] objects_invD(2) [of s p k rid d] by auto
  then show ?case
    by (intro returns_inv_move [OF join_data.prems(5), where p = p]) (auto simp: ret_ok_def)
next
  case (join_err s p k rid d r e x)
  then have "(rid, k, rresult r, Some e) \<in> fetches s"
    using results_invD(2) [of s rid r] objects_invD(2) [of s p k rid d] by auto
  with join_err.hyps(6) show ?case
    by (intro returns_inv_move [OF join_err.prems(5), where p = p])
      (auto simp: ret_ok_def attributedCoalescingError_def, blast)
next
  case (signal s p k rid w d data err r)
  then have "(rid, k, data, err) \<in> fetches s" using history_invD(2) [of s p] by simp
  then show ?case
    by (intro returns_inv_move [OF signal.prems(5), where p = p])
      (auto simp: ret_ok_def leader_return_def split: option.splits)
qed (rule returns_inv_move, assumption, auto simp: ret_ok_def)+

lemma creachable_inv:
  "creachable s \<Longrightarrow> ctxs_inv s \<and> table_inv s \<and> objects_inv s \<and> history_inv s \<and> results_inv s \<and> returns_inv s"
proof (induction rule: creachable.induct)
  case start
  show ?case
    by (simp add: cinit_def ctxs_inv_def table_inv_def objects_inv_def history_inv_def
        results_inv_def returns_inv_def)
next
  case (step s p t)
  then show ?case
    by (blast intro: ctxs_inv_step table_inv_step objects_inv_step history_inv_step
        results_inv_step returns_inv_step)
qed

lemma ex_new_object: "creachable s \<Longrightarrow> \<exists>rid. reqs s rid = None"
proof -
  assume "creachable s"
  then have "finite (dom (reqs s))"
  proof (induction rule: creachable.induct)
    case start
    then show ?case by (simp add: cinit_def)
  next
    case (step s p t)
    from step(2,3) show ?case by (induction rule: cstep.induct) auto
  qed
  then have "\<exists>rid. rid \<notin> dom (reqs s)" by (rule ex_new_if_finite [OF infinite_UNIV_nat])
  then show ?thesis by auto
qed

subsection \<open>A concrete run\<close>

text \<open>
  Caller 0 leads a fetch of the key \<open>k\<close>, caller 1 joins it, the fetch returns the byte 7 with
  the error \<open>err\<close>, and the leader publishes, removes and signals. The states of that run serve
  the examples of the properties below.
\<close>

abbreviation demo_req :: "bool \<Rightarrow> bytes \<Rightarrow> goerror option \<Rightarrow> inflightRequest" where
  "demo_req dn x err \<equiv> \<lparr>rdone = dn, rresult = x, rerr = err, followers = 1, rkey = ''k''\<rparr>"

definition demo_leading :: cstate where
  "demo_leading = \<lparr>inflight = [''k'' \<mapsto> 0],
     reqs = [0 \<mapsto> \<lparr>rdone = False, rresult = [], rerr = None, followers = 0, rkey = ''k''\<rparr>],
     procs = (\<lambda>_. Idle)(0 := Leading ''k'' 0 False 0), ctxs = (\<lambda>_. None), fetches = {}\<rparr>"

definition demo_joined :: cstate where
  "demo_joined = \<lparr>inflight = [''k'' \<mapsto> 0], reqs = [0 \<mapsto> demo_req False [] None],
     procs = (\<lambda>_. Idle)(0 := Leading ''k'' 0 False 0, 1 := Joined ''k'' 0 0),
     ctxs = (\<lambda>_. None), fetches = {}\<rparr>"

definition demo_signalled :: "goerror option \<Rightarrow> cstate" where
  "demo_signalled err = \<lparr>inflight = Map.empty, reqs = [0 \<mapsto> demo_req True [7] err],
     procs = (\<lambda>_. Idle)(0 := Ret ''k'' (leader_return False 0 [7] err)
         \<lparr>Coalesced = False, Waited = False, WaitDuration = 0\<rparr>, 1 := Joined ''k'' 0 0),
     ctxs = (\<lambda>_. None), fetches = {(0, ''k'', [7], err)}\<rparr>"

definition demo_returned :: "goerror option \<Rightarrow> goerror + bytes \<Rightarrow> cstate" where
  "demo_returned err r = (demo_signalled err)\<lparr>procs := (procs (demo_signalled err))(1 := Ret ''k'' r
     \<lparr>Coalesced = True, Waited = True, WaitDuration = 0\<rparr>)\<rparr>"

lemma demo_leading_reachable: "creachable demo_leading"
proof -
  have "creachable (cinit\<lparr>procs := (procs cinit)(0 := Top ''k'' False 0)\<rparr>)" (is "creachable ?s1")
    by (rule creachable.step [OF creachable.start cstep.call]) (simp add: cinit_def)
  then have "creachable (?s1\<lparr>procs := (procs ?s1)(0 := Locking ''k'' False 0)\<rparr>)" (is "creachable ?s2")
    by (rule creachable.step [OF _ cstep.top_go]) (simp_all add: cinit_def)
  from creachable.step [OF this cstep.lead [of ?s2 0 "''k''" False 0 0]]
  show ?thesis by (simp add: cinit_def demo_leading_def)
qed

lemma demo_joined_reachable: "creachable demo_joined"
proof -
  let ?s0 = demo_leading
  have "creachable (?s0\<lparr>procs := (procs ?s0)(1 := Top ''k'' False 0)\<rparr>)" (is "creachable ?s1")
    by (rule creachable.step [OF demo_leading_reachable cstep.call]) (simp add: demo_leading_def)
  then have "creachable (?s1\<lparr>procs := (procs ?s1)(1 := Locking ''k'' False 0)\<rparr>)" (is "creachable ?s2")
    by (rule creachable.step [OF _ cstep.top_go]) (simp_all add: demo_leading_def)
  from creachable.step [OF this cstep.join [of ?s2 1 "''k''" False 0 0]]
  show ?thesis by (simp add: demo_leading_def demo_joined_def)
qed

lemma demo_signalled_reachable: "creachable (demo_signalled err)"
proof -
  let ?s0 = demo_joined
  have "creachable (?s0\<lparr>procs := (procs ?s0)(0 := Fetched ''k'' 0 False 0 [7] err),
      fetches := insert (0, ''k'', [7], err) (fetches ?s0)\<rparr>)" (is "creachable ?s1")
    by (rule creachable.step [OF demo_joined_reachable cstep.fetch [where ferr = err]])
      (simp_all add: demo_joined_def split: option.split)
  then have "creachable (?s1\<lparr>procs := (procs ?s1)(0 := Published ''k'' 0 False 0 [7] err),
      reqs := (reqs ?s1)(0 \<mapsto> demo_req False [7] err)\<rparr>)" (is "creachable ?s2")
    using creachable.step [OF _ cstep.publish [of ?s1 0 "''k''" 0 False 0 "[7]" err]]
    by (simp add: demo_joined_def)
  from creachable.step [OF this cstep.remove [of ?s2 0 "''k''" 0 False 0 "[7]" err]]
  have "creachable (?s2\<lparr>procs := (procs ?s2)(0 := Removed ''k'' 0 False 0 [7] err),
      inflight := (inflight ?s2)(''k'' := None)\<rparr>)" (is "creachable ?s3")
    by (simp add: demo_joined_def)
  from creachable.step [OF this cstep.signal [of ?s3 0 "''k''" 0 False 0 "[7]" err]]
  show ?thesis by (simp add: demo_joined_def demo_signalled_def fun_upd_twist)
qed

lemma demo_data_reachable: "creachable (demo_returned None (Inr [7]))"
  using creachable.step [OF demo_signalled_reachable
      cstep.join_data [of "demo_signalled None" 1 "''k''" 0 0 "demo_req True [7] None" 0]]
  by (simp add: demo_returned_def demo_signalled_def)

lemma demo_error_reachable:
  "creachable (demo_returned (Some EOF) (Inl (attributedCoalescingError EOF True 0)))"
  using creachable.step [OF demo_signalled_reachable
      cstep.join_err [of "demo_signalled (Some EOF)" 1 "''k''" 0 0 "demo_req True [7] (Some EOF)" EOF 0]]
  by (simp add: demo_returned_def demo_signalled_def isContextError_def errorsIs_def)

subsection \<open>Properties\<close>

text \<open>
  C18: Whatever the interleaving, at most one caller is fetching a given key at any time: two
  callers between entering the key into the in-flight table and removing it are the same caller.
\<close>

theorem single_fetch_per_key:
  assumes "creachable s" and "leads (procs s p) = Some (k, r1)" and "leads (procs s q) = Some (k, r2)"
  shows "p = q \<and> r1 = r2"
proof -
  have inv: "table_inv s" using creachable_inv [OF assms(1)] by blast
  have "r1 = r2" using table_invD(2) [OF inv assms(2)] table_invD(2) [OF inv assms(3)] by simp
  with assms(2,3) show ?thesis by (auto dest: holds_leads table_invD(3) [OF inv])
qed

theorem single_fetch_per_key_witness:
  "leads (procs demo_leading 0) = Some (''k'', 0) \<and> (0::nat) = 0 \<and> (0::nat) = 0"
  using single_fetch_per_key [OF demo_leading_reachable, of 0 "''k''" 0 0 0]
  by (simp add: demo_leading_def)

text \<open>
  A caller that gets data gets the data of a fetch of its own key that succeeded; and every
  request object is fetched at most once, so all callers that share an object share one fetch.
\<close>

lemma shared_result_is_fetched:
  assumes "creachable s"
  shows "(procs s p = Ret k (Inr x) cr \<longrightarrow> (\<exists>rid. (rid, k, x, None) \<in> fetches s)) \<and>
    ((rid, k1, x1, e1) \<in> fetches s \<longrightarrow> (rid, k2, x2, e2) \<in> fetches s \<longrightarrow> (k1, x1, e1) = (k2, x2, e2))"
proof -
  have inv: "history_inv s" "returns_inv s" using creachable_inv [OF assms] by blast+
  have "\<exists>rid. (rid, k, x, None) \<in> fetches s" if "procs s p = Ret k (Inr x) cr"
    using inv(2) that unfolding returns_inv_def ret_ok_def by fastforce
  then show ?thesis using history_invD(4) [OF inv(1)] by blast
qed

text \<open>
  A follower never fails with a leader's cancellation. If a coalesced caller's error is a
  context error then its own context has ended; otherwise it is the error of a fetch of its key,
  wrapped with the wait.
\<close>

lemma follower_error_is_own_or_fetched:
  assumes "creachable s" and "procs s p = Ret k (Inl e) cr" and "Coalesced cr"
  shows "\<exists>e0. e = attributedCoalescingError e0 True (WaitDuration cr) \<and>
    (isContextError e0 \<longrightarrow> ctxs s p \<noteq> None) \<and>
    (\<not> isContextError e0 \<longrightarrow> (\<exists>rid x. (rid, k, x, Some e0) \<in> fetches s))"
proof -
  have "ret_ok s p k (Inl e) cr"
    using creachable_inv [OF assms(1)] assms(2) by (auto simp: returns_inv_def)
  then show ?thesis using assms(3) by (simp add: ret_ok_def)
qed

text \<open>\<open>active\<close>: a caller inside the function.\<close>

definition active :: "cstate \<Rightarrow> nat \<Rightarrow> bool" where
  "active s p \<longleftrightarrow> procs s p \<noteq> Idle \<and> (\<forall>k r cr. procs s p \<noteq> Ret k r cr)"

lemma holder_can_step:
  assumes "objects_inv s" and "holds (procs s p) = Some (k, rid)"
  shows "active s p \<and> (\<exists>t. cstep p s t \<and> procs t p \<noteq> procs s p)"
proof -
  obtain r where r: "reqs s rid = Some r" using objects_invD(1) [OF assms] by blast
  show ?thesis
  proof (cases "procs s p")
    case (Leading k' rid' w d)
    with cstep.fetch [OF this refl] show ?thesis by (force simp: active_def)
  next
    case (Fetched k' rid' w d x e)
    with cstep.publish [OF this] assms(2) r show ?thesis by (force simp: active_def)
  next
    case (Published k' rid' w d x e)
    with cstep.remove [OF this] show ?thesis by (force simp: active_def)
  next
    case (Removed k' rid' w d x e)
    with cstep.signal [OF this] assms(2) r show ?thesis by (force simp: active_def)
  qed (use assms(2) in auto)
qed

lemma locking_can_step:
  assumes "creachable s" and "procs s p = Locking k w d"
  shows "\<exists>t. cstep p s t \<and> procs t p \<noteq> procs s p"
proof (cases "inflight s k")
  case None
  obtain rid where "reqs s rid = None" using ex_new_object [OF assms(1)] by blast
  from cstep.lead [OF assms(2) None this] assms(2) show ?thesis by force
next
  case (Some rid)
  then obtain r where "reqs s rid = Some r" using inflight_object creachable_inv [OF assms(1)] by blast
  from cstep.join [OF assms(2) Some this] assms(2) show ?thesis by force
qed

lemma joined_can_step:
  assumes "objects_inv s" and "active s p" and "procs s p = Joined k rid d"
  shows "\<exists>q t. active s q \<and> cstep q s t \<and> procs t q \<noteq> procs s q"
proof -
  obtain r where r: "reqs s rid = Some r" "rdone r \<or> (\<exists>q. holds (procs s q) = Some (k, rid))"
    using objects_invD(2) [OF assms(1,3)] by blast
  show ?thesis
  proof (cases "rdone r \<and> ctxs s p = None")
    case True
    then show ?thesis
      using cstep.join_data [OF assms(3) _ r(1)] cstep.join_err [OF assms(3) _ r(1)]
        cstep.join_retry [OF assms(3) _ r(1)] assms(2,3)
      by (cases "rerr r") force+
  next
    case False
    then show ?thesis
      using cstep.join_ctx [OF assms(3)] r(2) holder_can_step [OF assms(1)] assms(2,3)
      by (cases "ctxs s p") force+
  qed
qed



end
