(* ===== verification/Log_Records.thy ===== *)
theory Log_Records
  imports Config_Load Modbus_Validate
begin

text \<open>
  Structured log records: a level, a message and attributes in order, as the source passes them to
  the logging library. The theory holds the record type, the order of the levels, the filter of a
  logger made by \<^verbatim>\<open>internal/logging/logging.go\<close>, and the attributes every record of a
  request starts with. The records themselves are defined where the source writes them.
\<close>

subsection \<open>Records\<close>

datatype log_value =
    VByte byte
  | VU16 u16
  | VBool bool
  | VInt int
  | VDuration duration
  | VString string
  | VKind error_kind
  | VError goerror

record log_record =
  recLevel :: level
  recMessage :: string
  recAttrs :: "(string \<times> log_value) list"

abbreviation logKeys :: "log_record \<Rightarrow> string list" where
  "logKeys r \<equiv> map fst (recAttrs r)"

abbreviation logValue :: "log_record \<Rightarrow> string \<Rightarrow> log_value option" where
  "logValue r k \<equiv> map_of (recAttrs r) k"

text \<open>
  Levels are ordered by the numbers of the logging library, and a logger made for a level writes the
  records that are not below it.
\<close>

fun level_number :: "level \<Rightarrow> int" where
  "level_number LevelDebug = - 4"
| "level_number LevelInfo = 0"
| "level_number LevelWarn = 4"
| "level_number LevelError = 8"

lemma level_number_inj: "level_number a = level_number b \<Longrightarrow> a = b"
  by (cases a; cases b) simp_all

instantiation level :: linorder
begin

definition less_eq_level :: "level \<Rightarrow> level \<Rightarrow> bool" where
  "less_eq_level a b \<longleftrightarrow> level_number a \<le> level_number b"

definition less_level :: "level \<Rightarrow> level \<Rightarrow> bool" where
  "less_level a b \<longleftrightarrow> level_number a < level_number b"

instance
  by standard (auto simp: less_eq_level_def less_level_def dest: level_number_inj)

end

definition emitted :: "level \<Rightarrow> log_record list \<Rightarrow> log_record list" where
  "emitted lvl records = filter (\<lambda>r. lvl \<le> recLevel r) records"

text \<open>\<^verbatim>\<open>fmt.Sprintf("0x%02X", b)\<close>\<close>

definition hexByte :: "byte \<Rightarrow> log_value" where
  "hexByte b = VString (''0x'' @ fmt_0X 2 (unat b))"

text \<open>The attributes every record of a request starts with.\<close>

definition requestAttrs :: "request \<Rightarrow> (string \<times> log_value) list" where
  "requestAttrs req =
     [(''slave_id'', VByte (SlaveID req)), (''func'', hexByte (FunctionCode req)),
      (''addr'', VU16 (Address req)), (''qty'', VU16 (Quantity req))]"

definition debugRecord :: "string \<Rightarrow> (string \<times> log_value) list \<Rightarrow> log_record" where
  "debugRecord msg args = \<lparr>recLevel = LevelDebug, recMessage = msg, recAttrs = args\<rparr>"

end
