(* ===== verification/Upstream_Client.thy ===== *)
theory Upstream_Client
  imports Log_Records "HOL-Library.State_Monad"
begin

text \<open>
  The upstream client of \<^verbatim>\<open>internal/modbus/client.go\<close>: connecting and
  disconnecting, the request slot, one attempt, the retry loop of \<open>Execute\<close>, the timing of a
  request and the health record. The client's state is threaded by a state monad. Everything the
  code reads from outside (clocks, the request context, the sockets behind the session) is an
  argument: an \<open>env\<close> gives the answer of each kind of query at each point of the run, counted
  by \<open>wtick\<close>; what the code does to the outside is recorded in \<open>wtrace\<close>. The lemmas are
  weakest-precondition rules for the operations and what they say about \<open>Execute\<close>.
\<close>

subsection \<open>The outside\<close>

text \<open>The calls of \<^verbatim>\<open>requestClient\<close> and \<^verbatim>\<open>SendRaw\<close>.\<close>

datatype upstream_call =
    ReadCoils u16 u16
  | ReadDiscreteInputs u16 u16
  | ReadHoldingRegisters u16 u16
  | ReadInputRegisters u16 u16
  | WriteSingleCoil u16 u16
  | WriteSingleRegister u16 u16
  | WriteMultipleCoils u16 u16 bytes
  | WriteMultipleRegisters u16 u16 bytes
  | SendRaw bytes

text \<open>Which case of a \<^verbatim>\<open>select\<close> with a context fired.\<close>

datatype wait_case = Fired | ContextDone goerror

record env =
  clockAt :: "nat \<Rightarrow> time"
  ctxErrAt :: "nat \<Rightarrow> goerror option"
  deadlineOf :: "time option"
  ownerAt :: "nat \<Rightarrow> wait_case"
  slotAt :: "nat \<Rightarrow> duration \<Rightarrow> wait_case"
  dialAt :: "nat \<Rightarrow> goerror option"
  closeAt :: "nat \<Rightarrow> goerror option"
  finishAt :: "nat \<Rightarrow> goerror option"
  replyAt :: "nat \<Rightarrow> upstream_call \<Rightarrow> goerror + bytes"

text \<open>
  \<open>Sent i t c\<close>: the call \<open>c\<close> was made on session \<open>i\<close> at tick \<open>t\<close>. A session is named by the tick of its dial. \<open>NilSession\<close> records the use of a nil session,
  which panics in the source.
\<close>

datatype event =
    Acquired
  | Released
  | Dialed bool
  | SessionClosed
  | SlaveSet byte
  | Begun duration
  | Sent nat nat upstream_call
  | Finished
  | NilSession

subsection \<open>State\<close>

text \<open>\<open>session\<close> stands for the two fields \<^verbatim>\<open>session\<close> and \<^verbatim>\<open>client\<close>,
  which are set and cleared together.\<close>

record client =
  address :: string
  attemptTimeout :: duration
  requestDelay :: duration
  connectDelay :: duration
  degradedWindow :: duration
  session :: "nat option"
  nextRequestAt :: time
  lastErr :: "goerror option"
  connected :: bool
  firstFailureAt :: time
  lastFirstSuccess :: time
  lastSuccess :: time
  firstFailures :: int
  finalFailures :: int
  totalRetries :: u64
  recoveredRetries :: u64

definition degradedHealthWindow :: duration where
  "degradedHealthWindow = 60 * second"

definition NewClient :: "string \<Rightarrow> duration \<Rightarrow> duration \<Rightarrow> duration \<Rightarrow> client" where
  "NewClient addr attempt_timeout request_delay connect_delay =
     \<lparr>address = addr, attemptTimeout = attempt_timeout, requestDelay = request_delay,
      connectDelay = connect_delay, degradedWindow = degradedHealthWindow, session = None,
      nextRequestAt = 0, lastErr = None, connected = False, firstFailureAt = 0,
      lastFirstSuccess = 0, lastSuccess = 0, firstFailures = 0, finalFailures = 0,
      totalRetries = 0, recoveredRetries = 0\<rparr>"

record world =
  wclient :: client
  wtick :: nat
  wtrace :: "event list"
  wlog :: "log_record list"

type_synonym 'a act = "(world, 'a) state"

definition observe :: "(nat \<Rightarrow> 'a) \<Rightarrow> 'a act" where
  "observe f = State (\<lambda>w. (f (wtick w), w\<lparr>wtick := Suc (wtick w)\<rparr>))"

definition emit :: "event \<Rightarrow> unit act" where
  "emit ev = State (\<lambda>w. ((), w\<lparr>wtrace := ev # wtrace w\<rparr>))"

definition tick :: "nat act" where
  "tick = State (\<lambda>w. (wtick w, w))"

definition log_line :: "log_record \<Rightarrow> unit act" where
  "log_line r = State (\<lambda>w. ((), w\<lparr>wlog := r # wlog w\<rparr>))"

definition look :: "(client \<Rightarrow> 'a) \<Rightarrow> 'a act" where
  "look sel = State (\<lambda>w. (sel (wclient w), w))"

definition change :: "(client \<Rightarrow> client) \<Rightarrow> unit act" where
  "change f = State (\<lambda>w. ((), w\<lparr>wclient := f (wclient w)\<rparr>))"

abbreviation ret :: "'a \<Rightarrow> 'a act" where
  "ret \<equiv> State_Monad.return"

subsection \<open>Context, ownership, connection\<close>

definition contextError :: "env \<Rightarrow> goerror option act" where
  "contextError e = do {
     err \<leftarrow> observe (ctxErrAt e);
     case err of
       Some x \<Rightarrow> ret (Some x)
     | None \<Rightarrow>
         (case deadlineOf e of
            None \<Rightarrow> ret None
          | Some d \<Rightarrow> do {
              now \<leftarrow> observe (clockAt e);
              ret (if now < d then None else Some DeadlineExceeded)
            })
   }"

definition release :: "unit act" where
  "release = emit Released"

definition acquire :: "env \<Rightarrow> goerror option act" where
  "acquire e = do {
     err \<leftarrow> observe (ctxErrAt e);
     case err of
       Some x \<Rightarrow> ret (Some x)
     | None \<Rightarrow> do {
         sel \<leftarrow> observe (ownerAt e);
         case sel of
           ContextDone x \<Rightarrow> ret (Some x)
         | Fired \<Rightarrow> do {
             emit Acquired;
             err \<leftarrow> observe (ctxErrAt e);
             case err of
               Some x \<Rightarrow> do { release; ret (Some x) }
             | None \<Rightarrow> ret None
           }
       }
   }"

text \<open>Errors of \<^verbatim>\<open>session.Close()\<close> are only logged, and not if the session was closed already.\<close>

definition logUnlessClosed :: "string \<Rightarrow> goerror option \<Rightarrow> unit act" where
  "logUnlessClosed msg err = (case err of
     Some x \<Rightarrow> if \<not> errorsIs x NetErrClosed then log_line (debugRecord msg [(''error'', VError x)]) else ret ()
   | None \<Rightarrow> ret ())"

definition closeSession :: "env \<Rightarrow> string \<Rightarrow> unit act" where
  "closeSession e msg = do { err \<leftarrow> observe (closeAt e); emit SessionClosed; logUnlessClosed msg err }"

definition connectLocked :: "env \<Rightarrow> goerror option act" where
  "connectLocked e = do {
     old \<leftarrow> look session;
     (case old of Some sid \<Rightarrow> closeSession e ''closing old upstream connection failed'' | None \<Rightarrow> ret ());
     newId \<leftarrow> observe (\<lambda>t. t);
     err \<leftarrow> observe (dialAt e);
     case err of
       Some x \<Rightarrow> do {
         addr \<leftarrow> look address;
         emit (Dialed False);
         closeSession e ''closing failed connection attempt failed'';
         change (\<lambda>c. c\<lparr>connected := False, lastErr := Some (Wrap (''connect to '' @ addr) x), session := None\<rparr>);
         ret (Some (Wrap (''connect to '' @ addr) x))
       }
     | None \<Rightarrow> do {
         emit (Dialed True);
         change (\<lambda>c. c\<lparr>session := Some newId, connected := True, lastErr := None\<rparr>);
         delay \<leftarrow> look connectDelay;
         addr \<leftarrow> look address;
         (if 0 <s delay then log_line (debugRecord ''applied connect delay'' [(''delay'', VDuration delay)]) else ret ());
         log_line \<lparr>recLevel = LevelInfo, recMessage = ''connected to upstream'', recAttrs = [(''address'', VString addr)]\<rparr>;
         ret None
       }
   }"

definition disconnectLocked :: "env \<Rightarrow> unit act" where
  "disconnectLocked e = do {
     old \<leftarrow> look session;
     (case old of Some sid \<Rightarrow> closeSession e ''closing failed upstream connection failed'' | None \<Rightarrow> ret ());
     change (\<lambda>c. c\<lparr>session := None, connected := False\<rparr>)
   }"

text \<open>\<^verbatim>\<open>Connect\<close> and \<^verbatim>\<open>Close\<close> run under the background context: \<open>e\<close> is
  then an environment without context errors.\<close>

definition Connect :: "env \<Rightarrow> goerror option act" where
  "Connect e = do {
     err \<leftarrow> acquire e;
     case err of
       Some x \<Rightarrow> ret (Some x)
     | None \<Rightarrow> do { r \<leftarrow> connectLocked e; release; ret r }
   }"

definition CloseClient :: "env \<Rightarrow> goerror option act" where
  "CloseClient e = do {
     err \<leftarrow> acquire e;
     case err of
       Some x \<Rightarrow> ret (Some x)
     | None \<Rightarrow> do {
         old \<leftarrow> look session;
         r \<leftarrow> (case old of
                Some sid \<Rightarrow> do {
                  cerr \<leftarrow> observe (closeAt e);
                  emit SessionClosed;
                  change (\<lambda>c. c\<lparr>session := None\<rparr>);
                  ret cerr
                }
              | None \<Rightarrow> ret None);
         change (\<lambda>c. c\<lparr>connected := False\<rparr>);
         release;
         ret r
       }
   }"

subsection \<open>Health record\<close>

definition healthyLocked :: "client \<Rightarrow> goerror option" where
  "healthyLocked c = (case lastErr c of
     Some e \<Rightarrow> Some e
   | None \<Rightarrow> if \<not> connected c then Some (Plain ''not connected'') else None)"

definition Healthy :: "client \<Rightarrow> goerror option" where
  "Healthy c = healthyLocked c"

record healthStats =
  LastFirstAttemptSuccess :: time
  LastSuccessfulRequest :: time
  ConsecutiveFirstAttemptFailure :: int
  ConsecutiveFinalFailure :: int
  TotalRetries :: u64
  RecoveredRetries :: u64
  Degraded :: bool
  SustainedDegradation :: bool

definition healthStatsLocked :: "client \<Rightarrow> time \<Rightarrow> healthStats" where
  "healthStatsLocked c now =
     (let degraded = \<not> IsZero (firstFailureAt c);
          sustained = degraded \<and>
            (degradedWindow c \<le>s 0 \<or> degradedWindow c \<le>s time_sub now (firstFailureAt c))
      in \<lparr>LastFirstAttemptSuccess = lastFirstSuccess c,
          LastSuccessfulRequest = lastSuccess c,
          ConsecutiveFirstAttemptFailure = firstFailures c,
          ConsecutiveFinalFailure = finalFailures c,
          TotalRetries = totalRetries c,
          RecoveredRetries = recoveredRetries c,
          Degraded = degraded,
          SustainedDegradation = sustained\<rparr>)"

definition HealthStats :: "client \<Rightarrow> time \<Rightarrow> healthStats" where
  "HealthStats c now = healthStatsLocked c now"

text \<open>The values of the details map.\<close>

datatype detail = JNull | JTime time | JInt int | JUint u64 | JBool bool

definition healthTimestamp :: "time \<Rightarrow> detail" where
  "healthTimestamp t = (if IsZero t then JNull else JTime t)"

definition healthStatus :: "healthStats \<Rightarrow> string \<times> (string \<rightharpoonup> detail)" where
  "healthStatus st =
     (if SustainedDegradation st then ''degraded'' else ''ok'',
      [''last_first_attempt_success'' \<mapsto> healthTimestamp (LastFirstAttemptSuccess st),
       ''last_successful_request'' \<mapsto> healthTimestamp (LastSuccessfulRequest st),
       ''consecutive_first_attempt_failures'' \<mapsto> JInt (ConsecutiveFirstAttemptFailure st),
       ''consecutive_final_failures'' \<mapsto> JInt (ConsecutiveFinalFailure st),
       ''total_retries'' \<mapsto> JUint (TotalRetries st),
       ''recovered_retries'' \<mapsto> JUint (RecoveredRetries st),
       ''degraded'' \<mapsto> JBool (Degraded st),
       ''sustained_degradation'' \<mapsto> JBool (SustainedDegradation st)])"

definition HealthReport :: "client \<Rightarrow> time \<Rightarrow> (string \<times> (string \<rightharpoonup> detail)) \<times> goerror option" where
  "HealthReport c now = (healthStatus (healthStatsLocked c now), healthyLocked c)"

definition recordFirstFailure :: "env \<Rightarrow> unit act" where
  "recordFirstFailure e = do {
     at0 \<leftarrow> look firstFailureAt;
     (if IsZero at0 then do {
        now \<leftarrow> observe (clockAt e);
        change (\<lambda>c. c\<lparr>firstFailureAt := now\<rparr>)
      } else ret ());
     change (\<lambda>c. c\<lparr>firstFailures := firstFailures c + 1\<rparr>)
   }"

definition recordRetry :: "unit act" where
  "recordRetry = change (\<lambda>c. c\<lparr>totalRetries := totalRetries c + 1\<rparr>)"

definition recordSuccess :: "nat \<Rightarrow> time \<Rightarrow> unit act" where
  "recordSuccess attempts now = change (\<lambda>c.
     (if attempts = 1 then c\<lparr>lastFirstSuccess := now, firstFailureAt := 0, firstFailures := 0\<rparr>
      else c\<lparr>recoveredRetries := recoveredRetries c + 1\<rparr>)
     \<lparr>lastSuccess := now, lastErr := None, finalFailures := 0, connected := True\<rparr>)"

subsection \<open>Timing and errors of a request\<close>

fun componentLoop :: "duration \<Rightarrow> duration list \<Rightarrow> duration" where
  "componentLoop acc [] = acc"
| "componentLoop acc (d # ds) =
     (if d \<le>s 0 then componentLoop acc ds
      else if maxDuration - acc <s d then maxDuration
      else componentLoop (acc + d) ds)"

definition completeTiming :: "requestTiming \<Rightarrow> requestTiming" where
  "completeTiming timing =
     (let componentTotal = componentLoop 0 [tqueue timing, tattempt timing, treconnect timing] in
      if ttotal timing <s componentTotal then timing\<lparr>ttotal := componentTotal\<rparr> else timing)"

definition logFailure :: "request \<Rightarrow> int \<Rightarrow> requestTiming \<Rightarrow> goerror \<Rightarrow> bool \<Rightarrow> log_record" where
  "logFailure req attempts timing0 err willRetry =
     (let timing = completeTiming timing0;
          (kind, exceptionCode) = classifyError (Some err);
          args = requestAttrs req @
            [(''write'', VBool (IsWriteFunction (FunctionCode req))),
             (''attempt'', VInt attempts), (''attempts'', VInt attempts),
             (''queue_duration'', VDuration (tqueue timing)),
             (''attempt_duration'', VDuration (tattempt timing)),
             (''reconnect_duration'', VDuration (treconnect timing)),
             (''total_duration'', VDuration (ttotal timing)),
             (''error_kind'', VKind kind), (''will_retry'', VBool willRetry)];
          args = args @ (if \<not> IsWriteFunction (FunctionCode req) then [(''error'', VError err)] else []);
          args = args @ (if exceptionCode \<noteq> 0 then [(''exception_code'', hexByte exceptionCode)] else []);
          args = args @ (if \<not> willRetry then [(''downstream_exception'', hexByte (DownstreamException err))] else [])
      in \<lparr>recLevel = LevelDebug,
          recMessage = (if willRetry then ''upstream request attempt failed'' else ''upstream request failed''),
          recAttrs = args\<rparr>)"

definition logSuccess :: "request \<Rightarrow> int \<Rightarrow> requestTiming \<Rightarrow> log_record" where
  "logSuccess req attempts timing =
     \<lparr>recLevel = LevelDebug, recMessage = ''upstream request completed'',
      recAttrs = requestAttrs req @
        [(''write'', VBool (IsWriteFunction (FunctionCode req))),
         (''attempt'', VInt attempts), (''attempts'', VInt attempts),
         (''queue_duration'', VDuration (tqueue timing)),
         (''attempt_duration'', VDuration (tattempt timing)),
         (''reconnect_duration'', VDuration (treconnect timing)),
         (''total_duration'', VDuration (ttotal timing)),
         (''error_kind'', VString ''''), (''will_retry'', VBool False)]\<rparr>"

definition finalError :: "goerror \<Rightarrow> nat \<Rightarrow> requestTiming \<Rightarrow> goerror act" where
  "finalError err attempts timing =
     (let reqErr = requestError err (int attempts) (completeTiming timing);
          kind = fst (classifyError (Some err))
      in do {
        (if kind = ErrorProtocolException then
           change (\<lambda>c. c\<lparr>lastErr := None, finalFailures := 0, connected := True\<rparr>)
         else if kind \<noteq> ErrorContextCanceled then
           change (\<lambda>c. (c\<lparr>lastErr := Some reqErr\<rparr>)
             \<lparr>finalFailures := finalFailures c +
                (if kind = ErrorTransportTimeout \<or> kind = ErrorTransportClosed then 1 else 0)\<rparr>)
         else ret ());
        ret reqErr
      })"

definition classifyRequestPathError :: "request \<Rightarrow> goerror option \<Rightarrow> goerror option" where
  "classifyRequestPathError req err = (case err of
     None \<Rightarrow> None
   | Some e \<Rightarrow>
       (case errorsAs asMbError e of
          Some (fc, ec) \<Rightarrow>
            if fc = FunctionCode req OR 0x80 \<and> ec \<noteq> 0 then Some e
            else Some (upstreamCommunicationError e)
        | None \<Rightarrow>
            if fst (classifyError (Some e)) = ErrorLocal then Some (upstreamCommunicationError e)
            else Some e))"

subsection \<open>One request on the session\<close>

definition waitForRequestSlot :: "env \<Rightarrow> goerror option act" where
  "waitForRequestSlot e = do {
     at0 \<leftarrow> look nextRequestAt;
     now \<leftarrow> observe (clockAt e);
     if time_sub at0 now \<le>s 0 then contextError e
     else do {
       let delay = time_sub at0 now;
       log_line (debugRecord ''waiting for upstream request slot'' [(''delay'', VDuration delay)]);
       sel \<leftarrow> observe (\<lambda>t. slotAt e t delay);
       case sel of
         Fired \<Rightarrow> contextError e
       | ContextDone x \<Rightarrow> ret (Some x)
     }
   }"

definition socketTimeoutFor :: "env \<Rightarrow> duration act" where
  "socketTimeoutFor e = do {
     attempt_timeout \<leftarrow> look attemptTimeout;
     timeout \<leftarrow> (case deadlineOf e of
        None \<Rightarrow> ret attempt_timeout
      | Some d \<Rightarrow> do {
          now \<leftarrow> observe (clockAt e);
          ret (if time_sub d now <s attempt_timeout then time_sub d now else attempt_timeout)
        });
     ret (if timeout \<le>s 0 then 1 else timeout)
   }"

definition buildReadResponse :: "byte \<Rightarrow> bytes \<Rightarrow> bytes" where
  "buildReadResponse funcCode data = funcCode # of_nat (length data) # data"

definition buildWriteResponse :: "byte \<Rightarrow> u16 \<Rightarrow> bytes \<Rightarrow> bytes" where
  "buildWriteResponse funcCode addr data =
     funcCode # PutUint16 addr @ (if 2 \<le> length data then take 2 data else [0, 0])"

text \<open>The upstream call a request becomes.\<close>

definition callOf :: "request \<Rightarrow> upstream_call" where
  "callOf req =
     (let fc = FunctionCode req in
      if fc = FuncReadCoils then ReadCoils (Address req) (Quantity req)
      else if fc = FuncReadDiscreteInputs then ReadDiscreteInputs (Address req) (Quantity req)
      else if fc = FuncReadHoldingRegisters then ReadHoldingRegisters (Address req) (Quantity req)
      else if fc = FuncReadInputRegisters then ReadInputRegisters (Address req) (Quantity req)
      else if fc = FuncWriteSingleCoil then WriteSingleCoil (Address req) (Uint16 (reqData req))
      else if fc = FuncWriteSingleRegister then WriteSingleRegister (Address req) (Uint16 (reqData req))
      else if fc = FuncWriteMultipleCoils then WriteMultipleCoils (Address req) (Quantity req) (reqData req)
      else if fc = FuncWriteMultipleRegs then WriteMultipleRegisters (Address req) (Quantity req) (reqData req)
      else SendRaw (PDU req))"

definition buildResponse :: "request \<Rightarrow> bytes \<Rightarrow> bytes" where
  "buildResponse req results =
     (if IsReadFunction (FunctionCode req) then buildReadResponse (FunctionCode req) results
      else if IsWriteFunction (FunctionCode req) then buildWriteResponse (FunctionCode req) (Address req) results
      else results)"

definition executeRequest :: "env \<Rightarrow> request \<Rightarrow> (goerror + bytes) act" where
  "executeRequest e req = do {
     sid \<leftarrow> look session;
     now \<leftarrow> tick;
     (case sid of Some i \<Rightarrow> emit (Sent i now (callOf req)) | None \<Rightarrow> emit NilSession);
     r \<leftarrow> observe (\<lambda>t. replyAt e t (callOf req));
     ret (case r of Inl err \<Rightarrow> Inl err | Inr results \<Rightarrow> Inr (buildResponse req results))
   }"

subsection \<open>One attempt\<close>

text \<open>How an attempt ends: with the result of the request, or with the failure that is retried.\<close>

datatype outcome = Finish "goerror + bytes" | Continue requestTiming bool goerror

text \<open>Every failure that ends a request in the loop is logged and recorded.\<close>

definition fail :: "request \<Rightarrow> goerror \<Rightarrow> nat \<Rightarrow> requestTiming \<Rightarrow> (goerror + bytes) act" where
  "fail req err attempts timing = do {
     log_line (logFailure req (int attempts) timing err False);
     x \<leftarrow> finalError err attempts timing;
     ret (Inl x)
   }"

text \<open>\<open>since e start\<close> is \<^verbatim>\<open>c.now().Sub(start)\<close>.\<close>

definition since :: "env \<Rightarrow> time \<Rightarrow> duration act" where
  "since e start = do { now \<leftarrow> observe (clockAt e); ret (time_sub now start) }"

text \<open>Reconnecting when there is no session.\<close>

definition connectPhase :: "env \<Rightarrow> request \<Rightarrow> time \<Rightarrow> nat \<Rightarrow> bool \<Rightarrow> requestTiming \<Rightarrow> (outcome + requestTiming) act" where
  "connectPhase e req start attempt slotReady timing = do {
     sid \<leftarrow> look session;
     if sid \<noteq> None then ret (Inr timing)
     else do {
       reconnectStart \<leftarrow> observe (clockAt e);
       err \<leftarrow> connectLocked e;
       d \<leftarrow> since e reconnectStart;
       let timing = timing\<lparr>treconnect := treconnect timing + d\<rparr>;
       case err of
         None \<Rightarrow> ret (Inr timing)
       | Some x \<Rightarrow> do {
           ctxErr \<leftarrow> (if attempt = 1 \<and> IsReadFunction (FunctionCode req) \<and> isTransportError (Some x)
                      then contextError e else ret (Some x));
           let willRetry = (ctxErr = None);
           d \<leftarrow> since e start;
           let timing = timing\<lparr>ttotal := d\<rparr>;
           (if attempt = 1 \<and> isTransportError (Some x) then recordFirstFailure e else ret ());
           if willRetry then do {
             recordRetry;
             log_line (logFailure req (int attempt) timing x True);
             ret (Inl (Continue timing slotReady x))
           } else do { r \<leftarrow> fail req x attempt timing; ret (Inl (Finish r)) }
         }
     }
   }"

text \<open>The request delay, once per request.\<close>

definition slotPhase :: "env \<Rightarrow> request \<Rightarrow> time \<Rightarrow> nat \<Rightarrow> bool \<Rightarrow> requestTiming \<Rightarrow> (outcome + requestTiming) act" where
  "slotPhase e req start attempt slotReady timing =
     (if slotReady then ret (Inr timing)
      else do {
        queueStart \<leftarrow> observe (clockAt e);
        err \<leftarrow> waitForRequestSlot e;
        d \<leftarrow> since e queueStart;
        let timing = timing\<lparr>tqueue := tqueue timing + d\<rparr>;
        case err of
          None \<Rightarrow> ret (Inr timing)
        | Some x \<Rightarrow> do {
            d \<leftarrow> since e start;
            r \<leftarrow> fail req x (attempt - 1) (timing\<lparr>ttotal := d\<rparr>);
            ret (Inl (Finish r))
          }
      })"

text \<open>One of the context checks before the request is on the wire.\<close>

definition checkContext :: "env \<Rightarrow> request \<Rightarrow> time \<Rightarrow> nat \<Rightarrow> requestTiming \<Rightarrow> (outcome + unit) act" where
  "checkContext e req start attempt timing = do {
     err \<leftarrow> contextError e;
     case err of
       None \<Rightarrow> ret (Inr ())
     | Some x \<Rightarrow> do {
         d \<leftarrow> since e start;
         r \<leftarrow> fail req x (attempt - 1) (timing\<lparr>ttotal := d\<rparr>);
         ret (Inl (Finish r))
       }
   }"

definition finishRequest :: "env \<Rightarrow> string \<Rightarrow> unit act" where
  "finishRequest e msg = do {
     err \<leftarrow> observe (finishAt e);
     emit Finished;
     (case err of Some x \<Rightarrow> log_line (debugRecord msg [(''error'', VError x)]) | None \<Rightarrow> ret ())
   }"

text \<open>Binding the request to the session, with the three context checks around it.\<close>

definition beginPhase :: "env \<Rightarrow> request \<Rightarrow> time \<Rightarrow> nat \<Rightarrow> requestTiming \<Rightarrow> (outcome + unit) act" where
  "beginPhase e req start attempt timing = do {
     c1 \<leftarrow> checkContext e req start attempt timing;
     case c1 of Inl x \<Rightarrow> ret (Inl x) | Inr _ \<Rightarrow> do {
     emit (SlaveSet (SlaveID req));
     c2 \<leftarrow> checkContext e req start attempt timing;
     case c2 of Inl x \<Rightarrow> ret (Inl x) | Inr _ \<Rightarrow> do {
     timeout \<leftarrow> socketTimeoutFor e;
     emit (Begun timeout);
     err \<leftarrow> contextError e;
     case err of
       None \<Rightarrow> ret (Inr ())
     | Some x \<Rightarrow> do {
         finishRequest e ''finishing canceled upstream request failed'';
         d \<leftarrow> since e start;
         r \<leftarrow> fail req x (attempt - 1) (timing\<lparr>ttotal := d\<rparr>);
         ret (Inl (Finish r))
       }
     }}
   }"

text \<open>A context that is over takes precedence over every failure but a Modbus exception.\<close>

definition attributeError :: "env \<Rightarrow> request \<Rightarrow> goerror option \<Rightarrow> goerror option act" where
  "attributeError e req err0 =
     (let err = classifyRequestPathError req err0 in
      if err \<noteq> None \<and> fst (classifyError err) \<noteq> ErrorProtocolException then do {
        ctxErr \<leftarrow> contextError e;
        ret (case ctxErr of None \<Rightarrow> err | Some x \<Rightarrow> Some x)
      } else ret err)"

definition succeed :: "env \<Rightarrow> request \<Rightarrow> time \<Rightarrow> nat \<Rightarrow> requestTiming \<Rightarrow> time \<Rightarrow> bytes \<Rightarrow> outcome act" where
  "succeed e req start attempt timing responseCompletedAt resp = do {
     delay \<leftarrow> look requestDelay;
     (if 0 <s delay then change (\<lambda>c. c\<lparr>nextRequestAt := time_add responseCompletedAt delay\<rparr>) else ret ());
     ctxErr \<leftarrow> contextError e;
     case ctxErr of
       Some x \<Rightarrow> do {
         d \<leftarrow> since e start;
         r \<leftarrow> fail req x attempt (timing\<lparr>ttotal := d\<rparr>);
         ret (Finish r)
       }
     | None \<Rightarrow> do {
         completedAt \<leftarrow> observe (clockAt e);
         let timing = completeTiming (timing\<lparr>ttotal := time_sub completedAt start\<rparr>);
         recordSuccess attempt completedAt;
         log_line (logSuccess req (int attempt) timing);
         ret (Finish (Inr resp))
       }
   }"

definition giveUpOrRetry :: "env \<Rightarrow> request \<Rightarrow> time \<Rightarrow> nat \<Rightarrow> requestTiming \<Rightarrow> goerror \<Rightarrow> outcome act" where
  "giveUpOrRetry e req start attempt timing err = do {
     let kind = fst (classifyError (Some err));
     let transport = (kind = ErrorTransportTimeout \<or> kind = ErrorTransportClosed);
     d \<leftarrow> since e start;
     let timing = timing\<lparr>ttotal := d\<rparr>;
     ctxErr \<leftarrow> (if attempt = 1 \<and> IsReadFunction (FunctionCode req) \<and> transport
                then contextError e else ret (Some err));
     let willRetry = (ctxErr = None);
     (if attempt = 1 \<and> transport then recordFirstFailure e else ret ());
     if willRetry then do {
       disconnectLocked e;
       recordRetry;
       log_line (logFailure req (int attempt) timing err True);
       ret (Continue timing True err)
     } else do {
       (if kind \<noteq> ErrorProtocolException then disconnectLocked e else ret ());
       r \<leftarrow> fail req err attempt timing;
       ret (Finish r)
     }
   }"

definition sendPhase :: "env \<Rightarrow> request \<Rightarrow> time \<Rightarrow> nat \<Rightarrow> requestTiming \<Rightarrow> outcome act" where
  "sendPhase e req start attempt timing = do {
     attemptStart \<leftarrow> observe (clockAt e);
     resp \<leftarrow> executeRequest e req;
     responseCompletedAt \<leftarrow> observe (clockAt e);
     d \<leftarrow> since e attemptStart;
     let timing = timing\<lparr>tattempt := tattempt timing + d\<rparr>;
     finishRequest e ''finishing upstream request failed'';
     err \<leftarrow> attributeError e req (case resp of Inl x \<Rightarrow> Some x | Inr _ \<Rightarrow> None);
     case err of
       None \<Rightarrow> succeed e req start attempt timing responseCompletedAt (case resp of Inl _ \<Rightarrow> [] | Inr b \<Rightarrow> b)
     | Some x \<Rightarrow> giveUpOrRetry e req start attempt timing x
   }"

definition executeAttempt :: "env \<Rightarrow> request \<Rightarrow> time \<Rightarrow> nat \<Rightarrow> bool \<Rightarrow> requestTiming \<Rightarrow> outcome act" where
  "executeAttempt e req start attempt slotReady timing = do {
     r1 \<leftarrow> connectPhase e req start attempt slotReady timing;
     case r1 of Inl x \<Rightarrow> ret x | Inr timing \<Rightarrow> do {
     r2 \<leftarrow> slotPhase e req start attempt slotReady timing;
     case r2 of Inl x \<Rightarrow> ret x | Inr timing \<Rightarrow> do {
     r3 \<leftarrow> beginPhase e req start attempt timing;
     case r3 of Inl x \<Rightarrow> ret x | Inr _ \<Rightarrow> sendPhase e req start attempt timing }}
   }"

subsection \<open>The retry loop\<close>

text \<open>
  The loop over the attempts that are left. After the last one the source builds an error from
  the last failure; \<open>None\<close> stands for building it from a nil error.
\<close>

fun executeLoop ::
  "env \<Rightarrow> request \<Rightarrow> time \<Rightarrow> nat list \<Rightarrow> bool \<Rightarrow> requestTiming \<Rightarrow> goerror option \<Rightarrow> (goerror + bytes) option act" where
  "executeLoop e req start [] slotReady timing last_err =
     (case last_err of
        None \<Rightarrow> ret None
      | Some x \<Rightarrow> do {
          d \<leftarrow> since e start;
          err \<leftarrow> finalError x 2 (timing\<lparr>ttotal := d\<rparr>);
          ret (Some (Inl err))
        })"
| "executeLoop e req start (attempt # rest) slotReady timing last_err = do {
     r \<leftarrow> executeAttempt e req start attempt slotReady timing;
     case r of
       Finish x \<Rightarrow> ret (Some x)
     | Continue timing slotReady x \<Rightarrow> executeLoop e req start rest slotReady timing (Some x)
   }"

definition zeroTiming :: requestTiming where
  "zeroTiming = \<lparr>tqueue = 0, tattempt = 0, treconnect = 0, ttotal = 0\<rparr>"

definition Execute :: "env \<Rightarrow> request option \<Rightarrow> (goerror + bytes) option act" where
  "Execute e reqp = do {
     start \<leftarrow> observe (clockAt e);
     case (ValidateRequest reqp, reqp) of
       (Some err, _) \<Rightarrow> do {
         d \<leftarrow> since e start;
         ret (Some (Inl (requestError err 0 (zeroTiming\<lparr>ttotal := d\<rparr>))))
       }
     | (None, None) \<Rightarrow> ret None
     | (None, Some req) \<Rightarrow> do {
         queueStart \<leftarrow> observe (clockAt e);
         err \<leftarrow> acquire e;
         d \<leftarrow> since e queueStart;
         let timing = zeroTiming\<lparr>tqueue := d\<rparr>;
         case err of
           Some x \<Rightarrow> do {
             d \<leftarrow> since e start;
             ret (Some (Inl (requestError x 0 (timing\<lparr>ttotal := d\<rparr>))))
           }
         | None \<Rightarrow> do {
             r \<leftarrow> executeLoop e req start [1, 2] False timing None;
             release;
             ret r
           }
       }
   }"

subsection \<open>Weakest preconditions\<close>

text \<open>\<open>wp m Q w\<close>: running \<open>m\<close> in \<open>w\<close> ends in a result and a world that satisfy \<open>Q\<close>.\<close>

definition wp :: "'a act \<Rightarrow> ('a \<Rightarrow> world \<Rightarrow> bool) \<Rightarrow> world \<Rightarrow> bool" where
  "wp m Q w \<longleftrightarrow> Q (fst (run_state m w)) (snd (run_state m w))"

named_theorems wp_simps "weakest preconditions of the basic actions"

lemma wp_ret [wp_simps]: "wp (ret a) Q = Q a"
  by (simp add: wp_def fun_eq_iff)

lemma wp_bind [wp_simps]: "wp (State_Monad.bind m f) Q = wp m (\<lambda>a. wp (f a) Q)"
  by (simp add: wp_def fun_eq_iff split: prod.split)

lemma wp_observe [wp_simps]:
  "wp (observe f) Q w \<longleftrightarrow> Q (f (wtick w)) (w\<lparr>wtick := Suc (wtick w)\<rparr>)"
  by (simp add: wp_def observe_def)

lemma wp_emit [wp_simps]: "wp (emit ev) Q = (\<lambda>w. Q () (w\<lparr>wtrace := ev # wtrace w\<rparr>))"
  by (simp add: wp_def emit_def fun_eq_iff)

lemma wp_tick [wp_simps]: "wp tick Q w \<longleftrightarrow> Q (wtick w) w"
  by (simp add: wp_def tick_def)

lemma wp_log_line [wp_simps]: "wp (log_line r) Q = (\<lambda>w. Q () (w\<lparr>wlog := r # wlog w\<rparr>))"
  by (simp add: wp_def log_line_def fun_eq_iff)

lemma wp_look [wp_simps]: "wp (look sel) Q w \<longleftrightarrow> Q (sel (wclient w)) w"
  by (simp add: wp_def look_def)

lemma wp_change [wp_simps]: "wp (change f) Q w \<longleftrightarrow> Q () (w\<lparr>wclient := f (wclient w)\<rparr>)"
  by (simp add: wp_def change_def)

lemma wp_mono: "wp m R w \<Longrightarrow> (\<And>a w'. R a w' \<Longrightarrow> Q a w') \<Longrightarrow> wp m Q w"
  by (simp add: wp_def)

text \<open>
  What the code relies on about the outside: context errors are the two of package
  \<^verbatim>\<open>context\<close>; a failed dial does not report a Modbus exception.
\<close>

definition ctx_ok :: "env \<Rightarrow> bool" where
  "ctx_ok e \<longleftrightarrow>
     (\<forall>t x. ctxErrAt e t = Some x \<longrightarrow> x = Canceled \<or> x = DeadlineExceeded) \<and>
     (\<forall>t x. ownerAt e t = ContextDone x \<longrightarrow> x = Canceled \<or> x = DeadlineExceeded) \<and>
     (\<forall>t d x. slotAt e t d = ContextDone x \<longrightarrow> x = Canceled \<or> x = DeadlineExceeded)"

definition dial_ok :: "env \<Rightarrow> bool" where
  "dial_ok e \<longleftrightarrow> (\<forall>t x. dialAt e t = Some x \<longrightarrow> errorsAs asMbError x = None)"

definition is_ctx :: "goerror \<Rightarrow> bool" where
  "is_ctx x \<longleftrightarrow> x = Canceled \<or> x = DeadlineExceeded"

text \<open>Rules for the operations that only read the outside.\<close>

lemma wp_contextError:
  assumes "ctx_ok e" and "\<And>n. Q None (w\<lparr>wtick := n\<rparr>)" and "\<And>n x. is_ctx x \<Longrightarrow> Q (Some x) (w\<lparr>wtick := n\<rparr>)"
  shows "wp (contextError e) Q w"
  using assms
  by (auto simp: contextError_def wp_simps ctx_ok_def is_ctx_def split: option.split)

lemma wp_since: "(\<And>n d. Q d (w\<lparr>wtick := n\<rparr>)) \<Longrightarrow> wp (since e start) Q w"
  by (simp add: since_def wp_simps)

lemma wp_waitForRequestSlot:
  assumes "ctx_ok e" and "\<And>n l. Q None (w\<lparr>wtick := n, wlog := l\<rparr>)"
    and "\<And>n l x. is_ctx x \<Longrightarrow> Q (Some x) (w\<lparr>wtick := n, wlog := l\<rparr>)"
  shows "wp (waitForRequestSlot e) Q w"
proof -
  have swap: "w\<lparr>wtick := a, wlog := l, wtick := b\<rparr> = w\<lparr>wtick := b, wlog := l\<rparr>" for a b l by simp
  have same: "Q None (w\<lparr>wtick := n\<rparr>)" "is_ctx x \<Longrightarrow> Q (Some x) (w\<lparr>wtick := n\<rparr>)" for n x
    using assms(2,3) [where n = n and l = "wlog w"] by simp_all
  show ?thesis using assms same
    by (auto simp: waitForRequestSlot_def Let_def wp_simps swap intro!: wp_contextError split: wait_case.split)
      (auto simp: ctx_ok_def is_ctx_def)
qed

lemma wp_socketTimeoutFor:
  assumes "\<And>n d. Q d (w\<lparr>wtick := n\<rparr>)"
  shows "wp (socketTimeoutFor e) Q w"
proof -
  have "Q d w" for d using assms [of d "wtick w"] by simp
  with assms show ?thesis by (auto simp: socketTimeoutFor_def wp_simps split: option.split)
qed

subsection \<open>What a run of the loop keeps\<close>

fun is_sent :: "event \<Rightarrow> bool" where
  "is_sent (Sent i t c) = True"
| "is_sent _ = False"

definition sends :: "event list \<Rightarrow> nat" where
  "sends tr = length (filter is_sent tr)"

text \<open>
  \<open>trace_inv req tr0 n tr\<close>: since \<open>tr0\<close> the request was sent \<open>n\<close> times, and nothing else was; no
  nil session was used and the owner token did not move. \<open>client_inv c0 k c\<close>: \<open>k\<close> retries were
  counted since \<open>c0\<close>, and the connected flag says whether there is a session.
\<close>

definition trace_inv :: "request \<Rightarrow> event list \<Rightarrow> nat \<Rightarrow> event list \<Rightarrow> bool" where
  "trace_inv req tr0 n tr \<longleftrightarrow>
     (\<exists>d. tr = d @ tr0 \<and> sends d = n \<and> (\<forall>i t c. Sent i t c \<in> set d \<longrightarrow> c = callOf req) \<and>
        NilSession \<notin> set d \<and> Acquired \<notin> set d \<and> Released \<notin> set d)"

definition client_inv :: "client \<Rightarrow> u64 \<Rightarrow> client \<Rightarrow> bool" where
  "client_inv c0 k c \<longleftrightarrow> totalRetries c = totalRetries c0 + k \<and>
     recoveredRetries c = recoveredRetries c0 \<and> (connected c \<longleftrightarrow> session c \<noteq> None)"

definition run_inv :: "request \<Rightarrow> world \<Rightarrow> nat \<Rightarrow> u64 \<Rightarrow> world \<Rightarrow> bool" where
  "run_inv req w0 n k w \<longleftrightarrow>
     trace_inv req (wtrace w0) n (wtrace w) \<and> client_inv (wclient w0) k (wclient w)"

text \<open>The result of a request against the client's state after it.\<close>

definition result_ok :: "nat \<Rightarrow> goerror + bytes \<Rightarrow> client \<Rightarrow> bool" where
  "result_ok attempt r c = (case r of
     Inl err \<Rightarrow> \<exists>x a t. err = requestError x (int a) (completeTiming t) \<and> a \<le> attempt \<and>
       (isTransportError (Some x) \<longrightarrow> session c = None) \<and>
       (fst (classifyError (Some x)) = ErrorProtocolException \<longrightarrow>
          session c \<noteq> None \<and> lastErr c = None \<and> finalFailures c = 0) \<and>
       (fst (classifyError (Some x)) \<notin> {ErrorProtocolException, ErrorContextCanceled} \<longrightarrow>
          lastErr c = Some err)
   | Inr b \<Rightarrow> session c \<noteq> None \<and> lastErr c = None \<and> finalFailures c = 0)"

lemma trace_inv_emit:
  assumes "trace_inv req tr0 n tr" and "ev \<noteq> NilSession" "ev \<noteq> Acquired" "ev \<noteq> Released"
    and "\<And>i t c. ev = Sent i t c \<Longrightarrow> c = callOf req"
  shows "trace_inv req tr0 (if is_sent ev then Suc n else n) (ev # tr)"
proof -
  obtain d where "tr = d @ tr0" "sends d = n" "\<forall>i t c. Sent i t c \<in> set d \<longrightarrow> c = callOf req"
      "NilSession \<notin> set d" "Acquired \<notin> set d" "Released \<notin> set d"
    using assms(1) by (auto simp: trace_inv_def)
  with assms show ?thesis unfolding trace_inv_def
    by (intro exI [of _ "ev # d"]) (auto simp: sends_def)
qed

lemma trace_inv_quiet:
  assumes "trace_inv req tr0 n tr"
  shows "trace_inv req tr0 n (Dialed b # tr)" "trace_inv req tr0 n (SessionClosed # tr)"
    "trace_inv req tr0 n (SlaveSet i # tr)" "trace_inv req tr0 n (Begun dl # tr)"
    "trace_inv req tr0 n (Finished # tr)" "trace_inv req tr0 (Suc n) (Sent i' t' (callOf req) # tr)"
  using trace_inv_emit [OF assms, of "Dialed b"] trace_inv_emit [OF assms, of SessionClosed]
    trace_inv_emit [OF assms, of "SlaveSet i"] trace_inv_emit [OF assms, of "Begun dl"]
    trace_inv_emit [OF assms, of Finished] trace_inv_emit [OF assms, of "Sent i' t' (callOf req)"]
  by simp_all

lemma trace_inv_start: "trace_inv req tr 0 tr"
  by (simp add: trace_inv_def sends_def)

subsection \<open>Rules for the operations on the client\<close>

lemma run_inv_log [simp]: "run_inv req w0 n k (w\<lparr>wlog := l\<rparr>) = run_inv req w0 n k w"
  by (simp add: run_inv_def)

lemma wp_closeSession:
  assumes "\<And>t l. Q () (w\<lparr>wtick := t, wtrace := SessionClosed # wtrace w, wlog := l\<rparr>)"
  shows "wp (closeSession e msg) Q w"
proof -
  have "Q () (w\<lparr>wtick := t, wtrace := SessionClosed # wtrace w\<rparr>)" for t
    using assms [where t = t and l = "wlog w"] by simp
  with assms show ?thesis by (simp add: closeSession_def logUnlessClosed_def wp_simps split: option.split)
qed

lemma wp_connectLocked:
  assumes "run_inv req w0 n k w" and "dial_ok e"
    and fail: "\<And>x w'. run_inv req w0 n k w' \<Longrightarrow> session (wclient w') = None \<Longrightarrow> errorsAs asMbError x = None \<Longrightarrow>
      Q (Some x) w'"
    and ok: "\<And>w'. run_inv req w0 n k w' \<Longrightarrow> session (wclient w') \<noteq> None \<Longrightarrow> Q None w'"
  shows "wp (connectLocked e) Q w"
  using assms(1,2)
  by (auto simp: connectLocked_def wp_simps dial_ok_def run_inv_def client_inv_def
      intro!: wp_closeSession fail ok trace_inv_quiet split: option.split)

lemma wp_disconnectLocked:
  assumes "run_inv req w0 n k w"
    and "\<And>w'. run_inv req w0 n k w' \<Longrightarrow> session (wclient w') = None \<Longrightarrow> Q () w'"
  shows "wp (disconnectLocked e) Q w"
  using assms(1)
  by (auto simp: disconnectLocked_def wp_simps run_inv_def client_inv_def
      intro!: wp_closeSession assms(2) trace_inv_quiet split: option.split)

lemma wp_recordFirstFailure:
  assumes "run_inv req w0 n k w"
    and "\<And>w'. run_inv req w0 n k w' \<Longrightarrow> session (wclient w') = session (wclient w) \<Longrightarrow> Q () w'"
  shows "wp (recordFirstFailure e) Q w"
  using assms(1)
  by (auto simp: recordFirstFailure_def wp_simps run_inv_def client_inv_def intro!: assms(2))

lemma wp_recordRetry:
  assumes "run_inv req w0 n k w"
    and "\<And>w'. run_inv req w0 n (k + 1) w' \<Longrightarrow> session (wclient w') = session (wclient w) \<Longrightarrow> Q () w'"
  shows "wp recordRetry Q w"
  using assms(1) by (auto simp: recordRetry_def wp_simps run_inv_def client_inv_def intro!: assms(2))

text \<open>A request that fails; the session must fit the kind of the failure.\<close>

lemma result_ok_failure:
  assumes "a \<le> attempt" and "isTransportError (Some x) \<Longrightarrow> session c = None"
    and "fst (classifyError (Some x)) = ErrorProtocolException \<Longrightarrow>
      session c \<noteq> None \<and> lastErr c = None \<and> finalFailures c = 0"
    and "fst (classifyError (Some x)) \<notin> {ErrorProtocolException, ErrorContextCanceled} \<Longrightarrow>
      lastErr c = Some (requestError x (int a) (completeTiming t))"
  shows "result_ok attempt (Inl (requestError x (int a) (completeTiming t))) c"
  unfolding result_ok_def sum.case using assms by blast

lemma wp_fail:
  assumes "run_inv req w0 n k w" and "a \<le> attempt"
    and "isTransportError (Some x) \<Longrightarrow> session (wclient w) = None"
    and "fst (classifyError (Some x)) = ErrorProtocolException \<Longrightarrow> session (wclient w) \<noteq> None"
    and "\<And>r w'. run_inv req w0 n k w' \<Longrightarrow> result_ok attempt r (wclient w') \<Longrightarrow> isl r \<Longrightarrow> Q r w'"
  shows "wp (fail req x a t) Q w"
  using assms(1-4)
  by (auto simp: fail_def finalError_def Let_def wp_simps run_inv_def client_inv_def
      intro!: assms(5) result_ok_failure)

lemma ctx_kinds: "is_ctx x \<Longrightarrow> \<not> isTransportError (Some x) \<and> fst (classifyError (Some x)) \<noteq> ErrorProtocolException"
  by (auto simp: is_ctx_def isTransportError_def)

lemma wp_fail_ctx:
  assumes "run_inv req w0 n k w" and "a \<le> attempt" and "is_ctx x"
    and "\<And>r w'. run_inv req w0 n k w' \<Longrightarrow> result_ok attempt r (wclient w') \<Longrightarrow> isl r \<Longrightarrow> Q r w'"
  shows "wp (fail req x a t) Q w"
  using assms(1,2) ctx_kinds [OF assms(3)] by (intro wp_fail [OF _ _ _ _ assms(4)]) auto

subsection \<open>Rules for the phases of an attempt\<close>

lemma run_inv_tick [simp]: "run_inv req w0 n k (w\<lparr>wtick := t\<rparr>) = run_inv req w0 n k w"
  by (simp add: run_inv_def)

text \<open>How an attempt may end when the request has been sent \<open>n\<close> times and retried \<open>k\<close> times.\<close>

definition ends :: "request \<Rightarrow> world \<Rightarrow> nat \<Rightarrow> nat \<Rightarrow> u64 \<Rightarrow> outcome \<Rightarrow> world \<Rightarrow> bool" where
  "ends req w0 attempt n k oc w' = (case oc of
     Finish (Inl err) \<Rightarrow> run_inv req w0 n k w' \<and> result_ok attempt (Inl err) (wclient w')
   | Finish (Inr b) \<Rightarrow>
       trace_inv req (wtrace w0) n (wtrace w') \<and> result_ok attempt (Inr b) (wclient w') \<and>
       totalRetries (wclient w') = totalRetries (wclient w0) + k \<and>
       recoveredRetries (wclient w') = recoveredRetries (wclient w0) + (if attempt = 1 then 0 else 1) \<and>
       connected (wclient w')
   | Continue t sr x \<Rightarrow> attempt = 1 \<and> IsReadFunction (FunctionCode req) \<and> isTransportError (Some x) \<and>
       run_inv req w0 n (k + 1) w' \<and> session (wclient w') = None)"

lemma ends_failed:
  "run_inv req w0 n k w' \<Longrightarrow> result_ok attempt r (wclient w') \<Longrightarrow> isl r \<Longrightarrow> ends req w0 attempt n k (Finish r) w'"
  by (cases r) (auto simp: ends_def)

lemma wp_connectPhase:
  assumes "run_inv req w0 n k w" and "ctx_ok e" and "dial_ok e"
    and ok: "\<And>t w'. run_inv req w0 n k w' \<Longrightarrow> session (wclient w') \<noteq> None \<Longrightarrow> Q (Inr t) w'"
    and stop: "\<And>oc w'. ends req w0 attempt n k oc w' \<Longrightarrow> Q (Inl oc) w'"
  shows "wp (connectPhase e req start attempt sr timing) Q w"
proof (cases "session (wclient w)")
  case (Some i)
  then show ?thesis using assms(1) ok by (simp add: connectPhase_def wp_simps)
next
  case None
  have failed: "wp (do { r \<leftarrow> fail req x attempt t; ret (Inl (Finish r)) }) Q w'"
    if "run_inv req w0 n k w'" "session (wclient w') = None" "errorsAs asMbError x = None" for x t w'
    unfolding wp_simps
  proof (rule wp_fail [OF that(1) le_refl])
    show "session (wclient w') \<noteq> None" if "fst (classifyError (Some x)) = ErrorProtocolException"
      using that \<open>errorsAs asMbError x = None\<close>
      by (auto simp: classifyError_def split: option.splits if_splits)
  qed (use that stop ends_failed in auto)
  show ?thesis using None assms(1-3) failed
    by (auto simp: connectPhase_def wp_simps Let_def ends_def
        intro!: wp_connectLocked [OF _ assms(3)] wp_since ok wp_contextError wp_recordFirstFailure wp_recordRetry stop)
qed

lemma wp_slotPhase:
  assumes "run_inv req w0 n k w" and "session (wclient w) \<noteq> None" and "ctx_ok e"
    and ok: "\<And>t w'. run_inv req w0 n k w' \<Longrightarrow> session (wclient w') \<noteq> None \<Longrightarrow> Q (Inr t) w'"
    and stop: "\<And>oc w'. ends req w0 attempt n k oc w' \<Longrightarrow> Q (Inl oc) w'"
  shows "wp (slotPhase e req start attempt sr timing) Q w"
  using assms(1-3)
  by (auto simp: slotPhase_def wp_simps Let_def
      intro!: wp_waitForRequestSlot wp_since ok wp_fail_ctx [where req = req and ?w0.0 = w0 and n = n and k = k
        and attempt = attempt] stop ends_failed)

lemma wp_checkContext:
  assumes "run_inv req w0 n k w" and "session (wclient w) \<noteq> None" and "ctx_ok e"
    and ok: "\<And>w'. run_inv req w0 n k w' \<Longrightarrow> session (wclient w') \<noteq> None \<Longrightarrow> Q (Inr ()) w'"
    and stop: "\<And>oc w'. ends req w0 attempt n k oc w' \<Longrightarrow> Q (Inl oc) w'"
  shows "wp (checkContext e req start attempt timing) Q w"
  using assms(1-3)
  by (auto simp: checkContext_def wp_simps Let_def
      intro!: wp_contextError wp_since ok wp_fail_ctx [where req = req and ?w0.0 = w0 and n = n and k = k
        and attempt = attempt] stop ends_failed)

lemma wp_finishRequest:
  assumes "run_inv req w0 n k w"
    and "\<And>w'. run_inv req w0 n k w' \<Longrightarrow> wclient w' = wclient w \<Longrightarrow> Q () w'"
  shows "wp (finishRequest e msg) Q w"
  using assms(1)
  by (auto simp: finishRequest_def wp_simps run_inv_def intro!: assms(2) trace_inv_quiet split: option.split)

lemma run_inv_setup:
  "run_inv req w0 n k w \<Longrightarrow> run_inv req w0 n k (w\<lparr>wtrace := SlaveSet i # wtrace w\<rparr>)"
  "run_inv req w0 n k w \<Longrightarrow> run_inv req w0 n k (w\<lparr>wtick := t, wtrace := Begun d # wtrace w\<rparr>)"
  by (auto simp: run_inv_def intro: trace_inv_quiet)

lemma wp_beginPhase:
  assumes "run_inv req w0 n k w" and "session (wclient w) \<noteq> None" and "ctx_ok e"
    and ok: "\<And>w'. run_inv req w0 n k w' \<Longrightarrow> session (wclient w') \<noteq> None \<Longrightarrow> Q (Inr ()) w'"
    and stop: "\<And>oc w'. ends req w0 attempt n k oc w' \<Longrightarrow> Q (Inl oc) w'"
  shows "wp (beginPhase e req start attempt timing) Q w"
proof -
  have failed: "wp (do { r \<leftarrow> fail req x (attempt - 1) t; ret (Inl (Finish r)) }) Q w'"
    if "run_inv req w0 n k w'" "is_ctx x" for x t w'
    unfolding wp_simps using that stop ends_failed
    by (intro wp_fail_ctx [where attempt = attempt, OF that(1) _ that(2)]) auto
  have bound: "wp (do { timeout \<leftarrow> socketTimeoutFor e; emit (Begun timeout); err \<leftarrow> contextError e;
      case err of None \<Rightarrow> ret (Inr ())
      | Some x \<Rightarrow> do { finishRequest e ''finishing canceled upstream request failed''; d \<leftarrow> since e start;
          r \<leftarrow> fail req x (attempt - 1) (timing\<lparr>ttotal := d\<rparr>); ret (Inl (Finish r)) } }) Q w'"
    if "run_inv req w0 n k w'" "session (wclient w') \<noteq> None" for w'
    unfolding wp_bind wp_emit
  proof (rule wp_socketTimeoutFor, rule wp_contextError [OF assms(3)], goal_cases)
    case (1 t d n1)
    show ?case using that by (auto simp: wp_simps run_inv_def intro!: ok trace_inv_quiet)
  next
    case (2 t d n1 x)
    have "run_inv req w0 n k (w'\<lparr>wtick := t, wtrace := Begun d # wtrace w', wtick := n1\<rparr>)"
      using that(1) by (auto simp: run_inv_def intro!: trace_inv_quiet)
    then show ?case using 2 failed [unfolded wp_bind]
      by (auto simp: wp_bind intro!: wp_finishRequest wp_since)
  qed
  show ?thesis unfolding beginPhase_def wp_bind
    apply (rule wp_checkContext [OF assms(1-3)])
     apply (simp only: sum.case wp_bind wp_emit)
     apply (rule wp_checkContext [where req = req and ?w0.0 = w0 and n = n and k = k])
         apply (erule run_inv_setup, simp, rule assms(3))
      apply (simp only: sum.case)
      apply (rule bound, assumption, assumption)
     apply (simp add: wp_simps stop)
    apply (simp add: wp_simps stop)
    done
qed

lemma wp_succeed:
  assumes "run_inv req w0 n k w" and "session (wclient w) \<noteq> None" and "ctx_ok e"
    and stop: "\<And>oc w'. ends req w0 attempt n k oc w' \<Longrightarrow> Q oc w'"
  shows "wp (succeed e req start attempt timing rc resp) Q w"
proof -
  have tail: "wp (do { ctxErr \<leftarrow> contextError e;
      case ctxErr of
        Some x \<Rightarrow> do { d \<leftarrow> since e start; r \<leftarrow> fail req x attempt (timing\<lparr>ttotal := d\<rparr>); ret (Finish r) }
      | None \<Rightarrow> do { completedAt \<leftarrow> observe (clockAt e); let timing = completeTiming (timing\<lparr>ttotal := time_sub completedAt start\<rparr>);
          recordSuccess attempt completedAt; log_line (logSuccess req (int attempt) timing);
          ret (Finish (Inr resp)) } }) Q w'"
    if "run_inv req w0 n k w'" "session (wclient w') \<noteq> None" for w'
    unfolding wp_bind
  proof (rule wp_contextError [OF assms(3)], goal_cases)
    case (1 m)
    show ?case using that
      by (auto simp: wp_simps Let_def recordSuccess_def run_inv_def client_inv_def ends_def result_ok_def intro!: stop)
  next
    case (2 m x)
    then show ?case using that
      by (auto simp: wp_simps intro!: wp_since wp_fail_ctx [where req = req and ?w0.0 = w0 and n = n and k = k
            and attempt = attempt] stop ends_failed)
  qed
  have "run_inv req w0 n k (w\<lparr>wclient := wclient w\<lparr>nextRequestAt := t\<rparr>\<rparr>)" for t
    using assms(1) by (simp add: run_inv_def client_inv_def)
  with assms(1,2) tail show ?thesis unfolding succeed_def wp_bind wp_look by (auto simp: wp_simps)
qed

lemma wp_giveUpOrRetry:
  assumes "run_inv req w0 n k w" and "session (wclient w) \<noteq> None" and "ctx_ok e"
    and stop: "\<And>oc w'. ends req w0 attempt n k oc w' \<Longrightarrow> Q oc w'"
  shows "wp (giveUpOrRetry e req start attempt timing err) Q w"
proof -
  let ?kind = "fst (classifyError (Some err))"
  have failed: "wp (do { (if ?kind \<noteq> ErrorProtocolException then disconnectLocked e else ret ());
      r \<leftarrow> fail req err attempt t; ret (Finish r) }) Q w'"
    if "run_inv req w0 n k w'" "session (wclient w') \<noteq> None" for t w'
  proof (cases "?kind = ErrorProtocolException")
    case True
    then have "\<not> isTransportError (Some err)" by (simp add: isTransportError_def)
    with True that show ?thesis
      by (auto simp: wp_simps intro!: wp_fail [where req = req and ?w0.0 = w0 and n = n and k = k
            and attempt = attempt] stop ends_failed)
  next
    case False
    with that show ?thesis
      by (auto simp: wp_simps intro!: wp_disconnectLocked wp_fail [where req = req and ?w0.0 = w0 and n = n and k = k
            and attempt = attempt] stop ends_failed)
  qed
  have retried: "wp (do { disconnectLocked e; recordRetry; log_line (logFailure req (int attempt) t err True);
      ret (Continue t True err) }) Q w'"
    if "run_inv req w0 n k w'" "attempt = 1" "IsReadFunction (FunctionCode req)" "isTransportError (Some err)" for t w'
    using that
    by (auto simp: wp_simps ends_def intro!: wp_disconnectLocked wp_recordRetry stop)
  show ?thesis
  proof (cases "attempt = 1 \<and> (?kind = ErrorTransportTimeout \<or> ?kind = ErrorTransportClosed)")
    case True
    then have tr: "isTransportError (Some err)" by (simp add: isTransportError_def)
    show ?thesis using True assms(1,2) tr failed [unfolded wp_simps] retried [unfolded wp_simps]
      by (auto simp: giveUpOrRetry_def Let_def wp_simps
          intro!: wp_since wp_contextError [OF assms(3)] wp_recordFirstFailure)
  next
    case False
    then show ?thesis using assms(1,2) failed [unfolded wp_simps]
      by (auto simp: giveUpOrRetry_def Let_def wp_simps intro!: wp_since)
  qed
qed

lemma wp_attributeError:
  assumes "ctx_ok e" and "\<And>t a. Q a (w\<lparr>wtick := t\<rparr>)"
  shows "wp (attributeError e req err) Q w"
proof -
  have "Q a w" for a using assms(2) [of a "wtick w"] by simp
  with assms show ?thesis
    by (auto simp: attributeError_def Let_def wp_simps intro!: wp_contextError)
qed

lemma wp_executeRequest:
  assumes "run_inv req w0 n k w" and "session (wclient w) \<noteq> None"
    and "\<And>r w'. run_inv req w0 (Suc n) k w' \<Longrightarrow> session (wclient w') \<noteq> None \<Longrightarrow> Q r w'"
  shows "wp (executeRequest e req) Q w"
  using assms(1,2)
  by (auto simp: executeRequest_def wp_simps run_inv_def intro!: assms(3) trace_inv_quiet)

lemma wp_sendPhase:
  assumes "run_inv req w0 n k w" and "session (wclient w) \<noteq> None" and "ctx_ok e"
    and stop: "\<And>oc w'. ends req w0 attempt (Suc n) k oc w' \<Longrightarrow> Q oc w'"
  shows "wp (sendPhase e req start attempt timing) Q w"
  unfolding sendPhase_def wp_bind Let_def wp_observe
proof (rule wp_executeRequest [where req = req and ?w0.0 = w0 and n = n and k = k], goal_cases)
  case (3 r w')
  show ?case
  proof (rule wp_since, rule wp_finishRequest [where req = req and ?w0.0 = w0 and n = "Suc n" and k = k], goal_cases)
    case (2 t d w'')
    have s: "session (wclient w'') \<noteq> None" using 2(2) 3(2) by simp
    show ?case
      by (rule wp_attributeError [OF assms(3)])
        (use 2(1) s in \<open>auto intro!: wp_succeed [OF _ _ assms(3) stop] wp_giveUpOrRetry [OF _ _ assms(3) stop]
          split: option.split\<close>)
  qed (use 3 in simp)
qed (use assms in auto)

text \<open>An attempt sends the request at most once more.\<close>

lemma wp_executeAttempt:
  assumes "run_inv req w0 n k w" and "ctx_ok e" and "dial_ok e"
    and stop: "\<And>oc w' m. m \<le> Suc n \<Longrightarrow> ends req w0 attempt m k oc w' \<Longrightarrow> Q oc w'"
  shows "wp (executeAttempt e req start attempt sr timing) Q w"
  unfolding executeAttempt_def wp_bind
proof (rule wp_connectPhase [OF assms(1-3)], goal_cases)
  case (1 t w1)
  show ?case unfolding sum.case wp_bind
  proof (rule wp_slotPhase [OF 1 assms(2)], goal_cases)
    case (1 t' w2)
    show ?case unfolding sum.case wp_bind
    proof (rule wp_beginPhase [OF 1 assms(2)], goal_cases)
      case (1 w3)
      then show ?case unfolding sum.case by (rule wp_sendPhase [OF _ _ assms(2) stop [OF le_refl]])
    qed (simp add: wp_simps stop [where m = n])
  qed (simp add: wp_simps stop [where m = n])
qed (simp add: wp_simps stop [where m = n])

text \<open>The loop: the second attempt always finishes.\<close>

definition finished :: "request \<Rightarrow> world \<Rightarrow> (goerror + bytes) option \<Rightarrow> world \<Rightarrow> bool" where
  "finished req w0 r w' \<longleftrightarrow> (\<exists>x n k attempt. r = Some x \<and>
     n \<le> (if IsReadFunction (FunctionCode req) then 2 else 1) \<and>
     (k = 0 \<and> attempt = 1 \<or> k = 1 \<and> attempt = 2 \<and> IsReadFunction (FunctionCode req)) \<and>
     ends req w0 attempt n k (Finish x) w')"

lemma wp_executeLoop:
  assumes "run_inv req w0 0 0 w" and "ctx_ok e" and "dial_ok e"
    and stop: "\<And>r w'. finished req w0 r w' \<Longrightarrow> Q r w'"
  shows "wp (executeLoop e req start [1, 2] sr timing None) Q w"
  unfolding executeLoop.simps(2) wp_bind
proof (rule wp_executeAttempt [OF assms(1-3)], goal_cases)
  case (1 oc w1 m)
  show ?case
  proof (cases oc)
    case (Finish x)
    have "finished req w0 (Some x) w1" unfolding finished_def
      using 1 Finish by (intro exI [of _ x] exI [of _ m] exI [of _ 0] exI [of _ 1]) auto
    then show ?thesis using Finish stop by (simp add: wp_simps)
  next
    case (Continue t sr' y)
    then have c: "IsReadFunction (FunctionCode req)" "run_inv req w0 m 1 w1" using 1(2) by (auto simp: ends_def)
    show ?thesis unfolding Continue outcome.case wp_bind
    proof (rule wp_executeAttempt [OF c(2) assms(2,3)], goal_cases)
      case (1 oc2 w2 m2)
      then obtain x where x: "oc2 = Finish x" by (cases oc2) (auto simp: ends_def)
      have "finished req w0 (Some x) w2" unfolding finished_def
        using 1 x c(1) \<open>m \<le> Suc 0\<close> by (intro exI [of _ x] exI [of _ m2] exI [of _ 1] exI [of _ 2]) auto
      then show ?case using x stop by (simp add: wp_simps)
    qed
  qed
qed

text \<open>Taking and giving back the owner token.\<close>

lemma world_swap: "w\<lparr>wtrace := tr, wtick := t\<rparr> = w\<lparr>wtick := t, wtrace := tr\<rparr>"
  by (cases w) simp

lemma wp_acquire:
  assumes "ctx_ok e"
    and "\<And>t x. is_ctx x \<Longrightarrow> Q (Some x) (w\<lparr>wtick := t\<rparr>)"
    and "\<And>t x. is_ctx x \<Longrightarrow> Q (Some x) (w\<lparr>wtick := t, wtrace := Released # Acquired # wtrace w\<rparr>)"
    and "\<And>t. Q None (w\<lparr>wtick := t, wtrace := Acquired # wtrace w\<rparr>)"
  shows "wp (acquire e) Q w"
proof -
  have ctx: "ctxErrAt e t = Some x \<Longrightarrow> is_ctx x" "ownerAt e t = ContextDone x \<Longrightarrow> is_ctx x" for t x
    using assms(1) by (auto simp: ctx_ok_def is_ctx_def)
  have n: "Q None (w\<lparr>wtrace := Acquired # wtrace w, wtick := t\<rparr>)" for t
    unfolding world_swap by (rule assms(4))
  have r: "is_ctx x \<Longrightarrow> Q (Some x) (w\<lparr>wtrace := Released # Acquired # wtrace w, wtick := t\<rparr>)" for x t
    unfolding world_swap by (rule assms(3))
  show ?thesis using assms(2,3) n r ctx
    by (auto simp: acquire_def release_def wp_simps split: option.split wait_case.split)
qed

text \<open>What one call of \<open>Execute\<close> does, from an accepted request to its result.\<close>

definition executed :: "request \<Rightarrow> world \<Rightarrow> (goerror + bytes) option \<Rightarrow> world \<Rightarrow> bool" where
  "executed req w0 r w' \<longleftrightarrow> (\<exists>x d k. r = Some x \<and> wtrace w' = d @ wtrace w0 \<and>
     sends d \<le> (if IsReadFunction (FunctionCode req) then 2 else 1) \<and>
     (\<forall>i t c. Sent i t c \<in> set d \<longrightarrow> c = callOf req) \<and> NilSession \<notin> set d \<and>
     count_list d Acquired = count_list d Released \<and>
     (k = 0 \<or> k = 1 \<and> IsReadFunction (FunctionCode req)) \<and>
     totalRetries (wclient w') = totalRetries (wclient w0) + k \<and>
     recoveredRetries (wclient w') = recoveredRetries (wclient w0) + (if isl x then 0 else k) \<and>
     (connected (wclient w') \<longleftrightarrow> session (wclient w') \<noteq> None) \<and>
     (result_ok 2 x (wclient w') \<or>
      (\<exists>y t. is_ctx y \<and> x = Inl (requestError y 0 t) \<and> wclient w' = wclient w0)))"

lemma result_ok_mono: "result_ok a r c \<Longrightarrow> a \<le> b \<Longrightarrow> result_ok b r c"
  by (fastforce simp: result_ok_def split: sum.splits)

lemma finished_executed:
  assumes "finished req (w0\<lparr>wtick := t, wtrace := Acquired # wtrace w0\<rparr>) r w'"
  shows "executed req w0 r (w'\<lparr>wtrace := Released # wtrace w'\<rparr>)"
proof -
  let ?w1 = "w0\<lparr>wtick := t, wtrace := Acquired # wtrace w0\<rparr>"
  obtain x n k attempt where x: "r = Some x" "n \<le> (if IsReadFunction (FunctionCode req) then 2 else 1)"
      "k = 0 \<and> attempt = 1 \<or> k = 1 \<and> attempt = 2 \<and> IsReadFunction (FunctionCode req)"
      "ends req ?w1 attempt n k (Finish x) w'"
    using assms by (auto simp: finished_def)
  have "trace_inv req (Acquired # wtrace w0) n (wtrace w')"
    using x(4) by (cases x) (auto simp: ends_def run_inv_def)
  then obtain d where d: "wtrace w' = d @ Acquired # wtrace w0" "sends d = n"
      "\<forall>i t c. Sent i t c \<in> set d \<longrightarrow> c = callOf req" "NilSession \<notin> set d" "Acquired \<notin> set d" "Released \<notin> set d"
    by (auto simp: trace_inv_def)
  have c: "totalRetries (wclient w') = totalRetries (wclient w0) + k"
      "recoveredRetries (wclient w') = recoveredRetries (wclient w0) + (if isl x then 0 else k)"
      "connected (wclient w') \<longleftrightarrow> session (wclient w') \<noteq> None" "result_ok attempt x (wclient w')"
    using x(3,4) by (cases x; force simp: ends_def run_inv_def client_inv_def result_ok_def)+
  have "result_ok 2 x (wclient w')" using c(4) x(3) result_ok_mono by fastforce
  with x(1-3) c d show ?thesis unfolding executed_def
    by (intro exI [of _ x] exI [of _ "Released # d @ [Acquired]"] exI [of _ k])
      (auto simp: sends_def count_list_0_iff)
qed

lemma wp_Execute:
  assumes "valid_request req" and "connected (wclient w) \<longleftrightarrow> session (wclient w) \<noteq> None"
    and "ctx_ok e" and "dial_ok e"
  shows "wp (Execute e (Some req)) (executed req w) w"
proof -
  have early: "executed req w (Some (Inl (requestError x 0 t))) (w\<lparr>wtick := n\<rparr>)"
    "executed req w (Some (Inl (requestError x 0 t))) (w\<lparr>wtick := n, wtrace := Released # Acquired # wtrace w\<rparr>)"
    if "is_ctx x" for x t n
    unfolding executed_def
    using that assms(2) by (auto simp: sends_def)
  have loop: "wp (executeLoop e req start [1, 2] False timing None)
      (\<lambda>r w'. executed req w r (w'\<lparr>wtrace := Released # wtrace w'\<rparr>)) (w\<lparr>wtick := t, wtrace := Acquired # wtrace w\<rparr>)"
    for start timing t
  proof (rule wp_executeLoop [OF _ assms(3,4)])
    show "run_inv req (w\<lparr>wtick := t, wtrace := Acquired # wtrace w\<rparr>) 0 0 (w\<lparr>wtick := t, wtrace := Acquired # wtrace w\<rparr>)"
      using assms(2) by (simp add: run_inv_def client_inv_def trace_inv_start)
  qed (rule finished_executed)
  have "ValidateRequest (Some req) = None" using assms(1) by (simp add: ValidateRequest_iff)
  then show ?thesis unfolding Execute_def
    by (auto simp: wp_simps release_def Let_def world_swap simp del: executeLoop.simps One_nat_def
        intro!: wp_acquire [OF assms(3)] wp_since early loop)
qed

lemma Execute_result:
  assumes "valid_request req" and "connected (wclient w) \<longleftrightarrow> session (wclient w) \<noteq> None"
    and "ctx_ok e" and "dial_ok e" and "run_state (Execute e (Some req)) w = (Some r, w')"
  shows "connected (wclient w') \<longleftrightarrow> session (wclient w') \<noteq> None"
    and "result_ok 2 r (wclient w') \<or> (\<exists>y t. is_ctx y \<and> r = Inl (requestError y 0 t) \<and> wclient w' = wclient w)"
  using wp_Execute [OF assms(1-4)] unfolding wp_def executed_def assms(5) by auto

subsection \<open>Every state a client can reach\<close>

abbreviation consistent :: "client \<Rightarrow> bool" where
  "consistent c \<equiv> connected c \<longleftrightarrow> session c \<noteq> None"

text \<open>
  The operations of the client in any order, each with its own environment. The owner token makes
  them run one after the other.
\<close>

inductive client_reachable :: "world \<Rightarrow> bool" where
  new_client: "client_reachable \<lparr>wclient = NewClient addr attempt_timeout request_delay connect_delay, wtick = t, wtrace = [], wlog = []\<rparr>"
| connect_client: "client_reachable w \<Longrightarrow> run_state (Connect e) w = (r, w') \<Longrightarrow> client_reachable w'"
| close_client: "client_reachable w \<Longrightarrow> run_state (CloseClient e) w = (r, w') \<Longrightarrow> client_reachable w'"
| execute_client: "client_reachable w \<Longrightarrow> valid_request req \<Longrightarrow> ctx_ok e \<Longrightarrow> dial_ok e \<Longrightarrow>
    run_state (Execute e (Some req)) w = (r, w') \<Longrightarrow> client_reachable w'"

text \<open>The flag fits the session, no nil session was ever used, the token was given back.\<close>

definition client_ok :: "world \<Rightarrow> bool" where
  "client_ok w \<longleftrightarrow> consistent (wclient w) \<and> NilSession \<notin> set (wtrace w) \<and>
     count_list (wtrace w) Acquired = count_list (wtrace w) Released"

lemma wp_Connect_ok: "client_ok w \<Longrightarrow> wp (Connect e) (\<lambda>r. client_ok) w"
  by (auto simp: client_ok_def Connect_def acquire_def release_def connectLocked_def wp_simps
      intro!: wp_closeSession split: option.split wait_case.split)

lemma wp_CloseClient_ok: "client_ok w \<Longrightarrow> wp (CloseClient e) (\<lambda>r. client_ok) w"
  by (auto simp: client_ok_def CloseClient_def acquire_def release_def wp_simps split: option.split wait_case.split)

lemma executed_ok: "executed req w r w' \<Longrightarrow> client_ok w \<Longrightarrow> client_ok w'"
  by (auto simp: executed_def client_ok_def)

lemma client_reachable_ok: "client_reachable w \<Longrightarrow> client_ok w"
proof (induction rule: client_reachable.induct)
  case (connect_client w e r w')
  then show ?case using wp_Connect_ok [of w e] by (simp add: wp_def)
next
  case (close_client w e r w')
  then show ?case using wp_CloseClient_ok [of w e] by (simp add: wp_def)
next
  case (execute_client w req e r w')
  then have "wp (Execute e (Some req)) (executed req w) w"
    using wp_Execute by (simp add: client_ok_def)
  with execute_client show ?case using executed_ok by (simp add: wp_def)
qed (simp add: client_ok_def NewClient_def)

subsection \<open>Timing\<close>

lemma sint_max_sub:
  assumes "0 \<le> sint (acc :: duration)"
  shows "sint (maxDuration - acc) = 2 ^ 63 - 1 - sint acc"
proof -
  have "sint (maxDuration - acc) = signed_take_bit 63 (sint maxDuration - sint acc)"
    by (simp add: sint_word_ariths)
  also have "\<dots> = 2 ^ 63 - 1 - sint acc"
    using assms sint_range [of acc] by (simp add: signed_take_bit_int_eq_self)
  finally show ?thesis .
qed

lemma sint_plus_small:
  assumes "0 \<le> sint a" and "0 \<le> sint b" and "sint a + sint b < 2 ^ 63"
  shows "sint (a + b :: duration) = sint a + sint b"
proof -
  have "sint (a + b) = signed_take_bit 63 (sint a + sint b)" by (simp add: sint_word_ariths)
  also have "\<dots> = sint a + sint b" using assms by (simp add: signed_take_bit_int_eq_self)
  finally show ?thesis .
qed

lemma sum_positive_nonneg: "0 \<le> sum_list (map (\<lambda>d. max 0 (sint (d :: duration))) ds)"
  by (induction ds) auto

lemma componentLoop_sint:
  "0 \<le> sint acc \<Longrightarrow> sint (componentLoop acc ds) =
     min (2 ^ 63 - 1) (sint acc + sum_list (map (\<lambda>d. max 0 (sint d)) ds))"
proof (induction ds arbitrary: acc)
  case Nil
  then show ?case using sint_range [of acc] by simp
next
  case (Cons d ds)
  consider "sint d \<le> 0" | "0 < sint d" "2 ^ 63 - 1 - sint acc < sint d"
    | "0 < sint d" "sint d \<le> 2 ^ 63 - 1 - sint acc" by linarith
  then show ?case
  proof cases
    case 1
    then show ?thesis using Cons by (simp add: word_sle_eq)
  next
    case 2
    then show ?thesis using sum_positive_nonneg [of ds] sint_max_sub [OF Cons.prems]
      by (simp add: word_sle_eq word_sless_alt)
  next
    case 3
    then have "sint (acc + d) = sint acc + sint d" using Cons.prems by (intro sint_plus_small) auto
    with 3 show ?thesis using Cons.IH [of "acc + d"] Cons.prems sint_max_sub [OF Cons.prems]
      by (simp add: word_sle_eq word_sless_alt)
  qed
qed

subsection \<open>A small environment\<close>

text \<open>A device that resets the connection on the first call and answers the second.\<close>

definition demo_env :: env where
  "demo_env = \<lparr>clockAt = (\<lambda>t. 1000 + int t), ctxErrAt = (\<lambda>_. None), deadlineOf = None, ownerAt = (\<lambda>_. Fired),
     slotAt = (\<lambda>_ _. Fired), dialAt = (\<lambda>_. None), closeAt = (\<lambda>_. None), finishAt = (\<lambda>_. None),
     replyAt = (\<lambda>t _. if t < 15 then Inl (OpError (Errno ECONNRESET)) else Inr [0, 7])\<rparr>"

definition demo_world :: world where
  "demo_world = \<lparr>wclient = NewClient ''dev:502'' second 0 0, wtick = 0, wtrace = [], wlog = []\<rparr>"

definition demo_request :: request where
  "demo_request = \<lparr>TransactionID = 1, SlaveID = 1, FunctionCode = 3, Address = 100, Quantity = 1,
     reqData = [], PDU = [3, 0, 100, 0, 1]\<rparr>"

lemma demo_client_ok:
  "ctx_ok demo_env" "dial_ok demo_env" "valid_request demo_request"
  "connected (wclient demo_world) \<longleftrightarrow> session (wclient demo_world) \<noteq> None"
  by (simp_all add: ctx_ok_def dial_ok_def demo_env_def demo_request_def demo_world_def NewClient_def
      valid_request_def IsReadFunction_def max_quantity_def mb_consts)

lemma demo_run: "\<exists>r w'. run_state (Execute demo_env (Some demo_request)) demo_world = (Some r, w')"
  using wp_Execute [OF demo_client_ok(3,4,1,2)] unfolding wp_def executed_def
  by (cases "run_state (Execute demo_env (Some demo_request)) demo_world") auto

subsection \<open>Properties\<close>

text \<open>
  C2: A request reaches the device at most twice, and only a read more than once: writes and
  vendor functions are never sent again. Every call on the wire is the request's own, on a live
  session; the request always returns a result, and gives the owner token back as often as it
  took it. This is for every behaviour of the clock, the context and the network.
\<close>

theorem execute_sends_bounded:
  assumes "valid_request req" and "connected (wclient w) \<longleftrightarrow> session (wclient w) \<noteq> None"
    and "ctx_ok e" and "dial_ok e"
  shows "\<exists>x d w'. run_state (Execute e (Some req)) w = (Some x, w') \<and> wtrace w' = d @ wtrace w \<and>
    length (filter is_sent d) \<le> (if IsReadFunction (FunctionCode req) then 2 else 1) \<and>
    (\<forall>i t c. Sent i t c \<in> set d \<longrightarrow> c = callOf req) \<and> NilSession \<notin> set d \<and>
    count_list d Acquired = count_list d Released"
  using wp_Execute [OF assms] unfolding wp_def executed_def sends_def
  by (cases "run_state (Execute e (Some req)) w") auto

theorem execute_sends_bounded_witness:
  "\<exists>x d w'. run_state (Execute demo_env (Some demo_request)) demo_world = (Some x, w') \<and>
     wtrace w' = d @ [] \<and> length (filter is_sent d) \<le> 2"
  using execute_sends_bounded [OF demo_client_ok(3,4,1,2)]
  by (fastforce simp: demo_world_def demo_request_def IsReadFunction_def mb_consts)



text \<open>
  C10: The client is sound in every state it can reach by connecting, closing and executing requests
  in any order against any network: a healthy client has a session, no call ever went to a nil
  session, the owner token was given back as often as it was taken, and one more request returns a
  result and leads to such a state again.
\<close>

theorem reachable_client_sound:
  assumes "client_reachable w" and "valid_request req" and "ctx_ok e" and "dial_ok e"
  shows "(healthyLocked (wclient w) = None \<longrightarrow> session (wclient w) \<noteq> None) \<and> NilSession \<notin> set (wtrace w) \<and>
    count_list (wtrace w) Acquired = count_list (wtrace w) Released \<and>
    (\<exists>x w'. run_state (Execute e (Some req)) w = (Some x, w') \<and> client_reachable w')"
proof -
  have ok: "client_ok w" using client_reachable_ok assms(1) .
  then have "wp (Execute e (Some req)) (executed req w) w"
    using wp_Execute assms(2-4) by (simp add: client_ok_def)
  then obtain x w' where "run_state (Execute e (Some req)) w = (Some x, w')"
    by (cases "run_state (Execute e (Some req)) w") (auto simp: wp_def executed_def)
  moreover from this have "client_reachable w'" using client_reachable.execute_client assms by blast
  ultimately show ?thesis using ok by (auto simp: client_ok_def healthyLocked_def split: option.splits)
qed

theorem reachable_client_sound_witness:
  "\<exists>x w'. run_state (Execute demo_env (Some demo_request)) demo_world = (Some x, w') \<and> client_reachable w'"
proof -
  have "client_reachable demo_world" unfolding demo_world_def by (rule client_reachable.new_client)
  from reachable_client_sound [OF this demo_client_ok(3,1,2)] show ?thesis by blast
qed

text \<open>
  The retry counters are exact. A request counts at most one retry and only if it is a read;
  a retry counts as recovered exactly when the request then succeeds.
\<close>

lemma execute_retry_counters:
  assumes "valid_request req" and "connected (wclient w) \<longleftrightarrow> session (wclient w) \<noteq> None"
    and "ctx_ok e" and "dial_ok e" and "run_state (Execute e (Some req)) w = (Some r, w')"
  shows "\<exists>k. (k = 0 \<or> k = 1 \<and> IsReadFunction (FunctionCode req)) \<and>
    totalRetries (wclient w') = totalRetries (wclient w) + k \<and>
    recoveredRetries (wclient w') = recoveredRetries (wclient w) + (if isl r then 0 else k)"
  using wp_Execute [OF assms(1-4)] unfolding wp_def executed_def assms(5) by auto

text \<open>
  The total a failed request reports is never smaller than what its parts add up to, and the
  addition cannot overflow: it saturates at the largest duration.
\<close>

lemma completeTiming_covers_parts:
  "completeTiming t = t\<lparr>ttotal := ttotal (completeTiming t)\<rparr> \<and>
   sint (ttotal (completeTiming t)) = max (sint (ttotal t))
     (min (2 ^ 63 - 1) (max 0 (sint (tqueue t)) + max 0 (sint (tattempt t)) + max 0 (sint (treconnect t))))"
proof -
  let ?c = "componentLoop 0 [tqueue t, tattempt t, treconnect t]"
  have "sint (ttotal (completeTiming t)) = max (sint (ttotal t)) (sint ?c)"
    by (auto simp: completeTiming_def Let_def word_sless_alt simp del: componentLoop.simps)
  moreover have "completeTiming t = t\<lparr>ttotal := ttotal (completeTiming t)\<rparr>"
    by (simp add: completeTiming_def Let_def del: componentLoop.simps)
  ultimately show ?thesis using componentLoop_sint [of 0 "[tqueue t, tattempt t, treconnect t]"]
    by (simp add: add.assoc del: componentLoop.simps)
qed

end
