(* ===== verification/Proxy_Handler.thy ===== *)
theory Proxy_Handler
  imports Config_Load Response_Codec Cache_Coalesce Upstream_Client
begin

text \<open>
  The request handler of \<^verbatim>\<open>internal/proxy/proxy.go\<close>: validation, the cache hit, the
  coalesced fetch with its generation check, the stale fallback, the three read-only modes and
  the invalidation around a write. The upstream client is an argument: a function on the whole
  proxy state, so that it also stands for whatever other requests do to the cache and the write
  generation while this one waits. The lemmas show that the handler never panics, keeps the
  cache well-formed, and what each kind of request gets.
\<close>

subsection \<open>State\<close>

record 'u proxy =
  pcfg :: config
  pcache :: cache
  writeGeneration :: u64
  upstream :: 'u

type_synonym 'u executor = "request \<Rightarrow> 'u proxy \<Rightarrow> (goerror + bytes) \<times> 'u proxy"

text \<open>
  What one request observes of its surroundings: the clock during the cache lookup and at the
  store, its iterations of the coalescing loop, and its context after the fetch.
  \<open>meanwhile\<close> is what other requests do between the failed fetch and the stale lookup.
\<close>

record 'u seen =
  hitClock :: "nat \<Rightarrow> time"
  storeClock :: time
  iterations :: "coalesce_iter list"
  ctxErr :: "goerror option"
  ctxDeadline :: "time option"
  nowAfter :: time
  meanwhile :: "'u proxy \<Rightarrow> 'u proxy"

text \<open>
  The outcome of a request: \<open>None\<close> while it still waits for another request's fetch; a panic
  ends the process.
\<close>

type_synonym 'u outcome = "((goerror + bytes) \<times> 'u proxy) go option"

subsection \<open>Reads\<close>

definition requestContextActive :: "goerror option \<Rightarrow> time option \<Rightarrow> time \<Rightarrow> bool" where
  "requestContextActive err deadline now =
     (if err \<noteq> None then False
      else (case deadline of None \<Rightarrow> True | Some d \<Rightarrow> now < d))"

text \<open>A nil slice is the empty slice.\<close>

definition sliceOf :: "bytes option go \<Rightarrow> bytes go" where
  "sliceOf r = map_go (\<lambda>b. case b of None \<Rightarrow> [] | Some x \<Rightarrow> x) r"

text \<open>
  The end of the closure that \<^verbatim>\<open>handleRead\<close> passes to the coalescing loop: the
  response is decomposed and, under the lock, stored unless a write has begun or ended since the
  cache was looked up.
\<close>

definition storeFetched :: "time \<Rightarrow> request \<Rightarrow> u64 \<Rightarrow> bytes \<Rightarrow> 'u proxy \<Rightarrow> 'u proxy go" where
  "storeFetched now req generation data p =
     (case decomposeResponse (FunctionCode req) (Quantity req) data of
        Panics \<Rightarrow> Panics
      | Returns None \<Rightarrow> Returns p
      | Returns (Some regValues) \<Rightarrow> Returns
          (if writeGeneration p = generation
           then p\<lparr>pcache := SetRange now (pcache p) (SlaveID req) (FunctionCode req) (Address req) regValues\<rparr>
           else p))"

definition fetchAndStore ::
  "'u executor \<Rightarrow> 'u seen \<Rightarrow> request \<Rightarrow> u64 \<Rightarrow> 'u proxy go \<Rightarrow> (goerror + bytes) \<times> 'u proxy go" where
  "fetchAndStore exec o1 req generation s = (case s of
     Panics \<Rightarrow> (Inr [], Panics)
   | Returns p \<Rightarrow>
       (case exec req p of
          (Inl err, p') \<Rightarrow> (Inl err, Returns p')
        | (Inr data, p') \<Rightarrow> (Inr data, storeFetched (storeClock o1) req generation data p')))"

definition coalesceKey :: "u64 \<Rightarrow> request \<Rightarrow> string" where
  "coalesceKey generation req =
     fmt_d (unat generation) @ '':'' @
     RangeKey (SlaveID req) (FunctionCode req) (Address req) (Quantity req)"

definition handleRead :: "'u executor \<Rightarrow> 'u seen \<Rightarrow> request \<Rightarrow> 'u proxy \<Rightarrow> 'u outcome" where
  "handleRead exec o1 req p =
     (case GetRange (hitClock o1) (pcache p) (SlaveID req) (FunctionCode req) (Address req) (Quantity req) of
        Some vals \<Rightarrow>
          Some (map_go (\<lambda>b. (Inr b, p)) (sliceOf (assembleResponse (FunctionCode req) (Quantity req) vals)))
      | None \<Rightarrow>
          (case CoalesceWithStatus (iterations o1) False 0
                  (fetchAndStore exec o1 req (writeGeneration p)) (Returns p) of
             None \<Rightarrow> None
           | Some ((r, coalesced), Panics) \<Rightarrow> Some Panics
           | Some ((Inr data, coalesced), Returns p') \<Rightarrow> Some (Returns (Inr data, p'))
           | Some ((Inl err, coalesced), Returns p') \<Rightarrow>
               if CacheServeStale (pcfg p') \<and> ErrorKindOf (Some err) \<noteq> ErrorProtocolException \<and>
                  requestContextActive (ctxErr o1) (ctxDeadline o1) (nowAfter o1)
               then
                 (let p'' = meanwhile o1 p' in
                  case GetRangeStale (pcache p'') (SlaveID req) (FunctionCode req) (Address req) (Quantity req) of
                    Some staleValues \<Rightarrow>
                      Some (map_go (\<lambda>b. (Inr b, p''))
                        (sliceOf (assembleResponse (FunctionCode req) (Quantity req) staleValues)))
                  | None \<Rightarrow> Some (Returns (Inl err, p'')))
               else Some (Returns (Inl err, p'))))"

subsection \<open>Writes\<close>

definition readFuncs :: "byte list" where
  "readFuncs = [FuncReadCoils, FuncReadDiscreteInputs, FuncReadHoldingRegisters, FuncReadInputRegisters]"

definition invalidateCache :: "request \<Rightarrow> cache \<Rightarrow> cache" where
  "invalidateCache req c =
     foldl (\<lambda>c fc. DeleteRange c (SlaveID req) fc (Address req) (Quantity req)) c readFuncs"

text \<open>The locked section before the write and in the deferred function after it.\<close>

definition bumpAndInvalidate :: "request \<Rightarrow> 'u proxy \<Rightarrow> 'u proxy" where
  "bumpAndInvalidate req p =
     p\<lparr>writeGeneration := writeGeneration p + 1, pcache := invalidateCache req (pcache p)\<rparr>"

definition buildFakeWriteResponse :: "request \<Rightarrow> bytes" where
  "buildFakeWriteResponse req =
     (let fc = FunctionCode req in
      if fc = FuncWriteSingleCoil \<or> fc = FuncWriteSingleRegister then
        fc # PutUint16 (Address req) @ (if 2 \<le> length (reqData req) then take 2 (reqData req) else [0, 0])
      else if fc = FuncWriteMultipleCoils \<or> fc = FuncWriteMultipleRegs then
        fc # PutUint16 (Address req) @ PutUint16 (Quantity req)
      else [fc])"

definition handleWrite :: "'u executor \<Rightarrow> request \<Rightarrow> 'u proxy \<Rightarrow> (goerror + bytes) \<times> 'u proxy" where
  "handleWrite exec req p = (case ReadOnly (pcfg p) of
     ReadOnlyOn \<Rightarrow> (Inr (buildFakeWriteResponse req), p)
   | ReadOnlyDeny \<Rightarrow> (Inr (BuildExceptionResponse (FunctionCode req) ExcIllegalFunction), p)
   | ReadOnlyOff \<Rightarrow>
       (let (r, p') = exec req (bumpAndInvalidate req p) in (r, bumpAndInvalidate req p')))"

definition handlePassthrough :: "'u executor \<Rightarrow> request \<Rightarrow> 'u proxy \<Rightarrow> (goerror + bytes) \<times> 'u proxy" where
  "handlePassthrough exec req p = exec req p"

subsection \<open>Dispatch\<close>

definition HandleRequest :: "'u executor \<Rightarrow> 'u seen \<Rightarrow> request option \<Rightarrow> 'u proxy \<Rightarrow> 'u outcome" where
  "HandleRequest exec o1 reqp p = (case ValidateRequest reqp of
     Some err \<Rightarrow>
       (case reqp of
          None \<Rightarrow> Some (Returns (Inl err, p))
        | Some req \<Rightarrow>
            Some (Returns (Inr (BuildExceptionResponse (FunctionCode req) (DownstreamException err)), p)))
   | None \<Rightarrow>
       (case reqp of
          None \<Rightarrow> Some Panics
        | Some req \<Rightarrow>
            if IsWriteFunction (FunctionCode req) then Some (Returns (handleWrite exec req p))
            else if IsReadFunction (FunctionCode req) then handleRead exec o1 req p
            else Some (Returns (handlePassthrough exec req p))))"

subsection \<open>Construction\<close>

fun saturatingDurationLoop :: "duration \<Rightarrow> duration list \<Rightarrow> duration" where
  "saturatingDurationLoop acc [] = acc"
| "saturatingDurationLoop acc (d # ds) =
     (if d \<le>s 0 then saturatingDurationLoop acc ds
      else if maxDuration - acc <s d then maxDuration
      else saturatingDurationLoop (acc + d) ds)"

definition saturatingDurationSum :: "duration list \<Rightarrow> duration" where
  "saturatingDurationSum durations = saturatingDurationLoop 0 durations"

text \<open>The initial state, and whether \<^verbatim>\<open>New\<close> warns about the request budget.\<close>

definition retryBudget :: "config \<Rightarrow> duration" where
  "retryBudget cfg = saturatingDurationSum
     [AttemptTimeout cfg, AttemptTimeout cfg, ConnectDelay cfg, ConnectDelay cfg, RequestDelay cfg]"

definition NewProxy :: "config \<Rightarrow> 'u \<Rightarrow> 'u proxy \<times> bool" where
  "NewProxy cfg client =
     (\<lparr>pcfg = cfg, pcache = NewCache (CacheTTL cfg) (CacheServeStale cfg), writeGeneration = 0,
       upstream = client\<rparr>,
      RequestTimeout cfg \<le>s retryBudget cfg)"

subsection \<open>Lemmas\<close>

lemma slot_invalidateCache:
  "slot (invalidateCache req c) s f x =
     (if s = SlaveID req \<and> IsReadFunction f \<and> in_range (Address req) (unat (Quantity req)) x
      then None else slot c s f x)"
  by (auto simp: invalidateCache_def readFuncs_def slot_DeleteRange IsReadFunction_def)

text \<open>
  \<open>cache_wf\<close>: every entry under the key of a register or coil holds a value of the shape its
  function code needs.
\<close>

definition cache_wf :: "cache \<Rightarrow> bool" where
  "cache_wf c \<longleftrightarrow> (\<forall>s f a e. slot c s f a = Some e \<longrightarrow> IsReadFunction f \<longrightarrow> wf_value f (entData e))"

lemma cache_wf_NewCache [mb_wf]: "cache_wf (NewCache ttl keep)"
  by (simp add: cache_wf_def NewCache_def slot_def)

lemma cache_wf_SetRange [mb_wf]:
  assumes "cache_wf c" and "length vs \<le> 65536" and "\<forall>v \<in> set vs. wf_value f v"
  shows "cache_wf (SetRange now c s f a vs)"
  using assms by (auto simp: cache_wf_def slot_SetRange in_range_def)

lemma cache_wf_invalidateCache [mb_wf]: "cache_wf c \<Longrightarrow> cache_wf (invalidateCache req c)"
  by (auto simp: cache_wf_def slot_invalidateCache)

lemma cache_wf_bump [mb_wf]: "cache_wf (pcache p) \<Longrightarrow> cache_wf (pcache (bumpAndInvalidate req p))"
  by (simp add: bumpAndInvalidate_def cache_wf_invalidateCache)

lemma cache_wf_stale:
  assumes "cache_wf c" and "IsReadFunction f" and "GetRangeStale c s f a q = Some vs"
  shows "length vs = unat q" and "\<forall>v \<in> set vs. wf_value f v"
proof -
  show "length vs = unat q" using assms(3) by (simp add: GetRangeStale_iff)
  show "\<forall>v \<in> set vs. wf_value f v"
  proof
    fix v assume "v \<in> set vs"
    then obtain j where "j < unat q" "v = vs ! j"
      using \<open>length vs = unat q\<close> by (auto simp: in_set_conv_nth)
    with assms(3) obtain e where "slot c s f (a + of_nat j) = Some e" "v = entData e"
      by (auto simp: GetRangeStale_iff)
    with assms(1,2) show "wf_value f v" by (auto simp: cache_wf_def)
  qed
qed

text \<open>What is assembled from a well-formed cache for an accepted read.\<close>

lemma sliceOf_simps [simp]: "sliceOf (Returns (Some b)) = Returns b" "sliceOf Panics = Panics"
  by (simp_all add: sliceOf_def)

lemma assemble_from_cache:
  assumes "cache_wf c" and "valid_request req" and "IsReadFunction (FunctionCode req)"
    and "GetRangeStale c (SlaveID req) (FunctionCode req) (Address req) (Quantity req) = Some vs"
  shows "\<exists>b. sliceOf (assembleResponse (FunctionCode req) (Quantity req) vs) = Returns b \<and>
    canonical_response (FunctionCode req) (unat (Quantity req)) b \<and>
    decomposeResponse (FunctionCode req) (Quantity req) b = Returns (Some vs)"
  using decompose_assemble [OF assms(3) valid_read(2) [OF assms(2,3)]
      cache_wf_stale(1) [OF assms(1,3,4)] cache_wf_stale(2) [OF assms(1,3,4)]]
  by auto

text \<open>
  The coalescing loop as a state transformer: it runs the fetch at most once and otherwise
  leaves the state alone.
\<close>

lemma CoalesceWithStatus_state:
  "CoalesceWithStatus its w d fetch s = Some ((r, cr), s') \<Longrightarrow> s' = s \<or> s' = snd (fetch s)"
proof (induction its w d fetch s rule: CoalesceWithStatus.induct)
  case (2 it its w d fetch s)
  from "2.prems" show ?case
    using "2.IH"
    by (auto simp: Let_def split: option.splits if_splits select_case.splits prod.splits sum.splits)
qed simp

lemma fetchAndStore_wf:
  assumes "valid_request req" and "IsReadFunction (FunctionCode req)"
    and "cache_wf (pcache (snd (exec req p)))"
  shows "\<exists>p'. snd (fetchAndStore exec o1 req g (Returns p)) = Returns p' \<and> cache_wf (pcache p')"
proof -
  obtain r p' where e: "exec req p = (r, p')" by (cases "exec req p")
  have q: "unat (Quantity req) \<le> 2000" using valid_read(2) [OF assms(1,2)] .
  show ?thesis
  proof (cases r)
    case (Inl err)
    then show ?thesis using assms(3) e by (simp add: fetchAndStore_def storeFetched_def)
  next
    case (Inr data)
    obtain d where d: "decomposeResponse (FunctionCode req) (Quantity req) data = Returns d"
      using decompose_returns [OF assms(2) q] by (cases "decomposeResponse (FunctionCode req) (Quantity req) data") auto
    show ?thesis
      using assms(3) e Inr d decompose_wf [OF assms(2) q, of data] unat_u16_less [of "Quantity req"]
      by (cases d) (auto simp: fetchAndStore_def storeFetched_def intro!: cache_wf_SetRange)
  qed
qed

text \<open>The three ways an accepted read can go.\<close>

lemma handleRead_hit:
  assumes "cache_wf (pcache p)" and "valid_request req" and "IsReadFunction (FunctionCode req)"
    and "GetRange (hitClock o1) (pcache p) (SlaveID req) (FunctionCode req) (Address req) (Quantity req) = Some vs"
  shows "\<exists>b. handleRead exec o1 req p = Some (Returns (Inr b, p)) \<and>
    canonical_response (FunctionCode req) (unat (Quantity req)) b \<and>
    decomposeResponse (FunctionCode req) (Quantity req) b = Returns (Some vs)"
  using assemble_from_cache [OF assms(1,2,3) GetRange_stale [OF assms(4)]] assms(4)
  by (auto simp: handleRead_def)

lemma handleRead_failed:
  assumes "GetRange (hitClock o1) (pcache p) (SlaveID req) (FunctionCode req) (Address req) (Quantity req) = None"
    and "CoalesceWithStatus (iterations o1) False 0 (fetchAndStore exec o1 req (writeGeneration p)) (Returns p) =
      Some ((Inl err, cr), Returns p')"
    and "cache_wf (pcache (meanwhile o1 p'))" and "valid_request req" and "IsReadFunction (FunctionCode req)"
  shows "\<exists>r p''. handleRead exec o1 req p = Some (Returns (r, p'')) \<and> (p'' = p' \<or> p'' = meanwhile o1 p') \<and>
    (case r of
       Inl err' \<Rightarrow> err' = err \<and>
         (CacheServeStale (pcfg p') \<longrightarrow> ErrorKindOf (Some err) \<noteq> ErrorProtocolException \<longrightarrow>
          requestContextActive (ctxErr o1) (ctxDeadline o1) (nowAfter o1) \<longrightarrow>
          GetRangeStale (pcache (meanwhile o1 p')) (SlaveID req) (FunctionCode req) (Address req)
            (Quantity req) = None)
     | Inr b \<Rightarrow> CacheServeStale (pcfg p') \<and> ErrorKindOf (Some err) \<noteq> ErrorProtocolException \<and>
         requestContextActive (ctxErr o1) (ctxDeadline o1) (nowAfter o1) \<and>
         (\<exists>vs. GetRangeStale (pcache (meanwhile o1 p')) (SlaveID req) (FunctionCode req) (Address req)
             (Quantity req) = Some vs \<and>
           canonical_response (FunctionCode req) (unat (Quantity req)) b \<and>
           decomposeResponse (FunctionCode req) (Quantity req) b = Returns (Some vs)))"
proof (cases "CacheServeStale (pcfg p') \<and> ErrorKindOf (Some err) \<noteq> ErrorProtocolException \<and>
    requestContextActive (ctxErr o1) (ctxDeadline o1) (nowAfter o1)")
  case False
  then show ?thesis using assms(1,2) by (auto simp: handleRead_def)
next
  case True
  let ?g = "GetRangeStale (pcache (meanwhile o1 p')) (SlaveID req) (FunctionCode req) (Address req) (Quantity req)"
  show ?thesis
  proof (cases ?g)
    case None
    then show ?thesis using assms(1,2) True by (simp add: handleRead_def)
  next
    case (Some vs)
    then show ?thesis using assms(1,2) True assemble_from_cache [OF assms(3,4,5) Some]
      by (auto simp: handleRead_def)
  qed
qed

lemma handleRead_miss_cases:
  assumes "GetRange (hitClock o1) (pcache p) (SlaveID req) (FunctionCode req) (Address req) (Quantity req) = None"
    and "CoalesceWithStatus (iterations o1) False 0 (fetchAndStore exec o1 req (writeGeneration p)) (Returns p) =
      Some ((Inr data, cr), Returns p')"
  shows "handleRead exec o1 req p = Some (Returns (Inr data, p'))"
  using assms by (simp add: handleRead_def)

lemma HandleRequest_valid:
  assumes "valid_request req"
  shows "HandleRequest exec o1 (Some req) p =
    (if IsWriteFunction (FunctionCode req) then Some (Returns (handleWrite exec req p))
     else if IsReadFunction (FunctionCode req) then handleRead exec o1 req p
     else Some (Returns (handlePassthrough exec req p)))"
  using assms by (simp add: HandleRequest_def ValidateRequest_iff [THEN iffD2])

lemma HandleRequest_read:
  "valid_request req \<Longrightarrow> IsReadFunction (FunctionCode req) \<Longrightarrow>
     HandleRequest exec o1 (Some req) p = handleRead exec o1 req p"
  by (simp add: HandleRequest_valid read_not_write)

lemma HandleRequest_write:
  "valid_request req \<Longrightarrow> IsWriteFunction (FunctionCode req) \<Longrightarrow>
     HandleRequest exec o1 (Some req) p = Some (Returns (handleWrite exec req p))"
  by (simp add: HandleRequest_valid)

lemma handleRead_wf:
  assumes "cache_wf (pcache p)" and "valid_request req" and "IsReadFunction (FunctionCode req)"
    and "cache_wf (pcache (snd (exec req p)))"
    and "\<And>q. cache_wf (pcache q) \<Longrightarrow> cache_wf (pcache (meanwhile o1 q))"
    and "handleRead exec o1 req p = Some out"
  shows "\<exists>r p'. out = Returns (r, p') \<and> cache_wf (pcache p')"
proof (cases "GetRange (hitClock o1) (pcache p) (SlaveID req) (FunctionCode req) (Address req) (Quantity req)")
  case (Some vs)
  then show ?thesis using handleRead_hit [OF assms(1,2,3) Some, of exec] assms(1,6) by auto
next
  case None
  let ?c = "CoalesceWithStatus (iterations o1) False 0 (fetchAndStore exec o1 req (writeGeneration p)) (Returns p)"
  obtain r cr s where c: "?c = Some ((r, cr), s)"
    using assms(6) None by (cases ?c) (auto simp: handleRead_def)
  then obtain p' where s: "s = Returns p'" "cache_wf (pcache p')"
    using CoalesceWithStatus_state [OF c] assms(1) fetchAndStore_wf [where exec = exec, OF assms(2,3,4)]
    by metis
  show ?thesis
  proof (cases r)
    case (Inl err)
    then show ?thesis using handleRead_failed [OF None c [unfolded Inl s(1)] assms(5) [OF s(2)] assms(2,3)]
        assms(5) [OF s(2)] s(2) assms(6) by auto
  next
    case (Inr data)
    then show ?thesis using handleRead_miss_cases [OF None c [unfolded Inr s(1)]] assms(6) s(2) by auto
  qed
qed

text \<open>A leader's iteration in which nothing expires.\<close>

lemma Coalesce_lead:
  assumes "ctxTop it = None" and "\<not> inFlight it" and "ctxAfterFetch it = None" and "fetch s = (Inr data, s')"
  shows "CoalesceWithStatus (it # its) w d fetch s =
    Some ((Inr data, \<lparr>Coalesced = False, Waited = w, WaitDuration = d\<rparr>), s')"
  using assms by (simp add: Let_def)

lemma handleRead_lead:
  assumes "GetRange (hitClock o1) (pcache p) (SlaveID req) (FunctionCode req) (Address req) (Quantity req) = None"
    and "iterations o1 = it # its" and "ctxTop it = None" and "\<not> inFlight it" and "ctxAfterFetch it = None"
    and "exec req p = (Inr data, p')" and "writeGeneration p' = writeGeneration p"
    and "decomposeResponse (FunctionCode req) (Quantity req) data = Returns (Some vs)"
  shows "handleRead exec o1 req p = Some (Returns (Inr data,
    p'\<lparr>pcache := SetRange (storeClock o1) (pcache p') (SlaveID req) (FunctionCode req) (Address req) vs\<rparr>))"
proof (rule handleRead_miss_cases [OF assms(1)])
  let ?p = "p'\<lparr>pcache := SetRange (storeClock o1) (pcache p') (SlaveID req) (FunctionCode req) (Address req) vs\<rparr>"
  have "fetchAndStore exec o1 req (writeGeneration p) (Returns p) = (Inr data, Returns ?p)"
    using assms(6-8) by (simp add: fetchAndStore_def storeFetched_def)
  from Coalesce_lead [where fetch = "fetchAndStore exec o1 req (writeGeneration p)" and s = "Returns p", OF assms(3,4,5) this]
  show "CoalesceWithStatus (iterations o1) False 0 (fetchAndStore exec o1 req (writeGeneration p)) (Returns p) =
    Some ((Inr data, \<lparr>Coalesced = False, Waited = False, WaitDuration = 0\<rparr>), Returns ?p)"
    unfolding assms(2) .
qed

text \<open>The loop is that of \<open>completeTiming\<close> in the client.\<close>

lemma saturatingDurationLoop_client: "saturatingDurationLoop acc ds = componentLoop acc ds"
  by (induction ds arbitrary: acc) auto

text \<open>A suppressed write is answered like a real one.\<close>

lemma list_take5: "5 \<le> length xs \<Longrightarrow> \<exists>a b c d e. take 5 xs = [a, b, c, d, e] \<and> xs ! 0 = a \<and>
    take 2 (drop 1 xs) = [b, c] \<and> take 2 (drop 3 xs) = [d, e]"
  by (intro exI [of _ "xs ! 0"] exI [of _ "xs ! 1"] exI [of _ "xs ! 2"] exI [of _ "xs ! 3"] exI [of _ "xs ! 4"])
    (auto intro!: nth_equalityI simp: less_Suc_eq numeral_eq_Suc)

lemma fake_response_echoes:
  assumes "parsed_request req" and "IsWriteFunction (FunctionCode req)"
  shows "buildFakeWriteResponse req = take 5 (PDU req)"
proof -
  have "5 \<le> length (PDU req)"
    using assms by (auto simp: parsed_request_def IsWriteFunction_def)
  from list_take5 [OF this] obtain a b c d e where l: "take 5 (PDU req) = [a, b, c, d, e]" "PDU req ! 0 = a"
      "take 2 (drop 1 (PDU req)) = [b, c]" "take 2 (drop 3 (PDU req)) = [d, e]" by blast
  have f: "FunctionCode req = a" "Address req = Uint16 [b, c]"
    using assms l by (auto simp: parsed_request_def)
  from assms(2) consider
      (single) "FunctionCode req = FuncWriteSingleCoil \<or> FunctionCode req = FuncWriteSingleRegister"
    | (multiple) "FunctionCode req = FuncWriteMultipleCoils \<or> FunctionCode req = FuncWriteMultipleRegs"
    by (auto simp: IsWriteFunction_def)
  then show ?thesis
  proof cases
    case single
    then have "reqData req = [d, e]" using assms(1) l by (auto simp: parsed_request_def)
    then show ?thesis using single f l by (simp add: buildFakeWriteResponse_def PutUint16_Uint16)
  next
    case multiple
    then have "Quantity req = Uint16 [d, e]" using assms(1) l by (auto simp: parsed_request_def)
    then show ?thesis using multiple f l
      by (auto simp: buildFakeWriteResponse_def PutUint16_Uint16 mb_consts)
  qed
qed

subsection \<open>A small configuration\<close>

definition demo_proxy :: "readOnlyMode \<Rightarrow> bool \<Rightarrow> unit proxy" where
  "demo_proxy mode stale = fst (NewProxy ((defaultConfig [''MODBUS_UPSTREAM'' \<mapsto> ''dev:502''])
     \<lparr>ReadOnly := mode, CacheServeStale := stale\<rparr>) ())"

definition demo_cached :: "readOnlyMode \<Rightarrow> bool \<Rightarrow> unit proxy" where
  "demo_cached mode stale = (demo_proxy mode stale)
     \<lparr>pcache := SetRange 5 (pcache (demo_proxy mode stale)) 1 3 100 [[0, 1], [0, 2]]\<rparr>"

definition demo_read :: request where
  "demo_read = \<lparr>TransactionID = 7, SlaveID = 1, FunctionCode = 3, Address = 100, Quantity = 2,
     reqData = [], PDU = [3, 0, 100, 0, 2]\<rparr>"

definition demo_write :: request where
  "demo_write = \<lparr>TransactionID = 8, SlaveID = 1, FunctionCode = 6, Address = 101, Quantity = 1,
     reqData = [0, 9], PDU = [6, 0, 101, 0, 9]\<rparr>"

definition demo_iter :: coalesce_iter where
  "demo_iter = \<lparr>ctxTop = None, inFlight = False, ctxJoined = None, selected = ReqDone, waitedFor = 0,
     ctxAfterWait = None, leaderErr = None, leaderResult = [], ctxAfterFetch = None\<rparr>"

definition demo_seen :: "time \<Rightarrow> unit seen" where
  "demo_seen t = \<lparr>hitClock = (\<lambda>_. t), storeClock = t, iterations = [demo_iter], ctxErr = None,
     ctxDeadline = None, nowAfter = t, meanwhile = (\<lambda>p. p)\<rparr>"

lemma demo_requests:
  "valid_request demo_read" "IsReadFunction (FunctionCode demo_read)"
  "valid_request demo_write" "IsWriteFunction (FunctionCode demo_write)" "parsed_request demo_write"
  by (simp_all add: demo_read_def demo_write_def valid_request_def parsed_request_def IsReadFunction_def
      IsWriteFunction_def max_quantity_def mb_consts Uint16_def)

lemma demo_cached_wf: "cache_wf (pcache (demo_cached mode stale))"
  by (auto simp: demo_cached_def demo_proxy_def NewProxy_def wf_value_def mb_consts
      intro!: cache_wf_SetRange cache_wf_NewCache)

lemma demo_lookup:
  "GetRange (\<lambda>_. 6) (pcache (demo_cached mode stale)) 1 3 100 2 = Some [[0, 1], [0, 2]]"
  "GetRange (\<lambda>_. 6) (pcache (demo_proxy mode stale)) 1 3 100 2 = None"
  "GetRange (\<lambda>_. 20000000000) (pcache (demo_cached mode stale)) 1 3 100 2 = None"
  "GetRangeStale (pcache (demo_cached mode stale)) 1 3 100 2 = Some [[0, 1], [0, 2]]"
proof -
  have "unat (2 :: u16) = Suc (Suc 0)" by simp
  then have two: "GetRange clock c 1 3 100 2 = GetRange_loop clock c 1 3 100 0 (Suc (Suc 0))" for clock c
    by (simp only: GetRange_def) simp
  have two': "GetRangeStale c 1 3 100 2 = GetRangeStale_loop c 1 3 100 0 (Suc (Suc 0))" for c
    using \<open>unat (2 :: u16) = Suc (Suc 0)\<close> by (simp only: GetRangeStale_def) simp
  show "GetRange (\<lambda>_. 6) (pcache (demo_cached mode stale)) 1 3 100 2 = Some [[0, 1], [0, 2]]"
    "GetRange (\<lambda>_. 6) (pcache (demo_proxy mode stale)) 1 3 100 2 = None"
    "GetRange (\<lambda>_. 20000000000) (pcache (demo_cached mode stale)) 1 3 100 2 = None"
    "GetRangeStale (pcache (demo_cached mode stale)) 1 3 100 2 = Some [[0, 1], [0, 2]]"
    unfolding two two'
    by (simp_all add: demo_cached_def demo_proxy_def NewProxy_def NewCache_def defaultConfig_def second_def
        SetRange_def IsExpired_def sint_time_sub)
qed

text \<open>A read of expired values while the device does not answer.\<close>

lemma demo_stale_run:
  "GetRange (hitClock (demo_seen 20000000000)) (pcache (demo_cached ReadOnlyOn True)) (SlaveID demo_read)
      (FunctionCode demo_read) (Address demo_read) (Quantity demo_read) = None"
  "CoalesceWithStatus (iterations (demo_seen 20000000000)) False 0
      (fetchAndStore (\<lambda>_ q. (Inl EOF, q)) (demo_seen 20000000000) demo_read (writeGeneration (demo_cached ReadOnlyOn True)))
      (Returns (demo_cached ReadOnlyOn True)) =
    Some ((Inl EOF, \<lparr>Coalesced = False, Waited = False, WaitDuration = 0\<rparr>), Returns (demo_cached ReadOnlyOn True))"
  "CacheServeStale (pcfg (demo_cached ReadOnlyOn True))"
  "ErrorKindOf (Some EOF) \<noteq> ErrorProtocolException"
  "requestContextActive (ctxErr (demo_seen 20000000000)) (ctxDeadline (demo_seen 20000000000))
     (nowAfter (demo_seen 20000000000))"
  "meanwhile (demo_seen 20000000000) q = q"
  using demo_lookup(3) [of ReadOnlyOn True]
  by (simp_all add: demo_cached_def demo_proxy_def NewProxy_def ErrorKindOf_def errorsAs_def errorsIs_def
      classifyError_def netError_def requestContextActive_def demo_read_def demo_seen_def demo_iter_def fetchAndStore_def storeFetched_def)

subsection \<open>Properties\<close>

text \<open>
  Reads are served from the cache without contacting the device. When every register or coil
  of an accepted read has a fresh entry, the handler returns the response that decomposes into
  exactly those values, for any upstream, and changes nothing.
\<close>

lemma read_hit_served_locally:
  assumes "valid_request req" and "IsReadFunction (FunctionCode req)" and "cache_wf (pcache p)"
    and "GetRange (hitClock o1) (pcache p) (SlaveID req) (FunctionCode req) (Address req) (Quantity req) = Some vs"
  shows "\<exists>b. HandleRequest exec o1 (Some req) p = Some (Returns (Inr b, p)) \<and>
    canonical_response (FunctionCode req) (unat (Quantity req)) b \<and>
    decomposeResponse (FunctionCode req) (Quantity req) b = Returns (Some vs)"
  unfolding HandleRequest_read [OF assms(1,2)] by (rule handleRead_hit [OF assms(3,1,2,4)])

text \<open>
  What a successful read brings in is what later reads get. After an accepted read that
  missed, led its fetch without interference and got a canonical response, the response goes to
  the client as it is, and every later read of any part of that range within the TTL is answered
  from the cache, with the corresponding part of the same values, whatever the upstream would
  say.
\<close>

lemma read_fills_cache:
  assumes "valid_request req" and "IsReadFunction (FunctionCode req)" and "cache_wf (pcache p)"
    and miss: "GetRange (hitClock o1) (pcache p) (SlaveID req) (FunctionCode req) (Address req) (Quantity req) = None"
    and lead: "iterations o1 = it # its" "ctxTop it = None" "\<not> inFlight it" "ctxAfterFetch it = None"
    and exec: "exec req p = (Inr data, p\<lparr>upstream := u\<rparr>)"
    and canon: "canonical_response (FunctionCode req) (unat (Quantity req)) data"
    and req2: "valid_request req2" "SlaveID req2 = SlaveID req" "FunctionCode req2 = FunctionCode req"
      "Address req2 = Address req + of_nat i" "i + unat (Quantity req2) \<le> unat (Quantity req)"
    and ttl: "\<forall>j. storeClock o1 \<le> hitClock o2 j \<and> hitClock o2 j - storeClock o1 \<le> sint (defaultTTL (pcache p))"
  shows "\<exists>p' vs b. HandleRequest exec o1 (Some req) p = Some (Returns (Inr data, p')) \<and>
    decomposeResponse (FunctionCode req) (Quantity req) data = Returns (Some vs) \<and>
    HandleRequest exec2 o2 (Some req2) p' = Some (Returns (Inr b, p')) \<and>
    decomposeResponse (FunctionCode req2) (Quantity req2) b =
      Returns (Some (take (unat (Quantity req2)) (drop i vs)))"
proof -
  have q: "unat (Quantity req) \<le> 2000" using valid_read(2) [OF assms(1,2)] .
  obtain vs where vs: "decomposeResponse (FunctionCode req) (Quantity req) data = Returns (Some vs)"
    using assemble_decompose [OF assms(2) q canon] by blast
  have len: "length vs = unat (Quantity req)" "\<forall>v \<in> set vs. wf_value (FunctionCode req) v"
    using decompose_wf [OF assms(2) q vs] by auto
  define c where "c = SetRange (storeClock o1) (pcache p) (SlaveID req) (FunctionCode req) (Address req) vs"
  define p' where "p' = p\<lparr>upstream := u, pcache := c\<rparr>"
  have first: "HandleRequest exec o1 (Some req) p = Some (Returns (Inr data, p'))"
    unfolding HandleRequest_read [OF assms(1,2)]
    using handleRead_lead [where exec = exec, OF miss lead exec _ vs] by (simp add: p'_def c_def)
  have rd2: "IsReadFunction (FunctionCode req2)" using assms(2) req2(3) by simp
  have nz: "Quantity req2 \<noteq> 0" using valid_read(1) [OF req2(1) rd2] by auto
  have "\<forall>j < unat (Quantity req2). storeClock o1 \<le> hitClock o2 j \<and>
      hitClock o2 j - storeClock o1 \<le> sint (defaultTTL (pcache p))" using ttl by blast
  then have hit: "GetRange (hitClock o2) (pcache p') (SlaveID req2) (FunctionCode req2) (Address req2) (Quantity req2) =
      Some (take (unat (Quantity req2)) (drop i vs))"
    using GetRange_after_SetRange [of vs i "Quantity req2" "storeClock o1" "hitClock o2" "pcache p"] len(1) req2 q nz
    by (simp add: p'_def c_def)
  have "cache_wf (pcache p')"
    using assms(3) len q by (auto simp: p'_def c_def intro!: cache_wf_SetRange)
  from handleRead_hit [OF this req2(1) rd2 hit, of exec2] first vs show ?thesis
    unfolding HandleRequest_read [OF req2(1) rd2] by auto
qed

text \<open>
  C19: A forwarded write leaves no pre-write value behind. The device sees the write only after
  the write generation has moved on and every register of the range has been dropped for all four
  read functions, and the same happens again after the device answered, failed, or timed out,
  whatever other requests stored in between.
\<close>

theorem write_invalidates:
  assumes "valid_request req" and "IsWriteFunction (FunctionCode req)" and "ReadOnly (pcfg p) = ReadOnlyOff"
  shows "\<exists>sent r answered p'. HandleRequest exec o1 (Some req) p = Some (Returns (r, p')) \<and>
    exec req sent = (r, answered) \<and>
    writeGeneration sent = writeGeneration p + 1 \<and> writeGeneration p' = writeGeneration answered + 1 \<and>
    (\<forall>f x. IsReadFunction f \<longrightarrow> (\<exists>i < unat (Quantity req). x = Address req + of_nat i) \<longrightarrow>
       GetStale (pcache sent) (RegKey (SlaveID req) f x) = None \<and>
       GetStale (pcache p') (RegKey (SlaveID req) f x) = None) \<and>
    (\<forall>s f x. s \<noteq> SlaveID req \<or> \<not> IsReadFunction f \<or> \<not> (\<exists>i < unat (Quantity req). x = Address req + of_nat i) \<longrightarrow>
       GetStale (pcache p') (RegKey s f x) = GetStale (pcache answered) (RegKey s f x))"
proof -
  obtain r q where e: "exec req (bumpAndInvalidate req p) = (r, q)" by fastforce
  have g: "GetStale (pcache (bumpAndInvalidate req p1)) (RegKey s f x) =
      (if s = SlaveID req \<and> IsReadFunction f \<and> (\<exists>i < unat (Quantity req). x = Address req + of_nat i)
       then None else GetStale (pcache p1) (RegKey s f x))" for p1 :: "'a proxy" and s f x
    using slot_invalidateCache [of req "pcache p1" s f x] unat_u16_less [of "Quantity req"]
    by (auto simp: GetStale_def bumpAndInvalidate_def slot_def in_range_iff split: if_splits)
  have "HandleRequest exec o1 (Some req) p = Some (Returns (r, bumpAndInvalidate req q))"
    unfolding HandleRequest_write [OF assms(1,2)] using assms(3) e by (simp add: handleWrite_def)
  moreover have "writeGeneration (bumpAndInvalidate req p1) = writeGeneration p1 + 1" for p1 :: "'a proxy"
    by (simp add: bumpAndInvalidate_def)
  ultimately show ?thesis using e g by (intro exI [of _ "bumpAndInvalidate req p"] exI [of _ r] exI [of _ q]
      exI [of _ "bumpAndInvalidate req q"]) auto
qed

theorem write_invalidates_witness:
  "\<exists>p' r. HandleRequest (\<lambda>_ q. (Inr [6, 0, 101, 0, 9], q)) (demo_seen 6) (Some demo_write)
      (demo_cached ReadOnlyOff True) = Some (Returns (r, p')) \<and>
     GetStale (pcache p') (RegKey 1 3 101) = None"
  using write_invalidates [OF demo_requests(3,4), of "demo_cached ReadOnlyOff True"
      "\<lambda>_ q. (Inr [6, 0, 101, 0, 9], q)" "demo_seen 6"]
  by (fastforce simp: demo_cached_def demo_proxy_def NewProxy_def demo_write_def IsReadFunction_def mb_consts)

text \<open>
  C26: In the read-only modes no write reaches the device. For every accepted write the handler
  answers on its own and changes nothing, whatever the upstream would do: with the exception
  illegal function when writes are denied, and otherwise with the success response of the
  protocol, which is the first five bytes of the request.
\<close>

theorem readonly_writes_stay_local:
  assumes "valid_request req" and "parsed_request req" and "IsWriteFunction (FunctionCode req)"
    and "ReadOnly (pcfg p) \<noteq> ReadOnlyOff"
  shows "HandleRequest exec o1 (Some req) p = Some (Returns
    (Inr (if ReadOnly (pcfg p) = ReadOnlyDeny then [FunctionCode req OR 0x80, 0x01] else take 5 (PDU req)), p))"
proof -
  have fake: "buildFakeWriteResponse req = take 5 (PDU req)" using assms(2,3) by (rule fake_response_echoes)
  show ?thesis unfolding HandleRequest_write [OF assms(1,3)]
    using assms(4) fake by (cases "ReadOnly (pcfg p)") (simp_all add: handleWrite_def BuildExceptionResponse_def mb_consts)
qed

theorem readonly_writes_stay_local_witness:
  "HandleRequest (\<lambda>_ q. (Inl EOF, q)) (demo_seen 6) (Some demo_write) (demo_proxy ReadOnlyOn False) =
     Some (Returns (Inr [6, 0, 101, 0, 9], demo_proxy ReadOnlyOn False)) \<and>
   HandleRequest (\<lambda>_ q. (Inl EOF, q)) (demo_seen 6) (Some demo_write) (demo_proxy ReadOnlyDeny False) =
     Some (Returns (Inr [0x86, 1], demo_proxy ReadOnlyDeny False))"
  using readonly_writes_stay_local [OF demo_requests(3,5,4), of "demo_proxy ReadOnlyOn False" "\<lambda>_ q. (Inl EOF, q)" "demo_seen 6"]
    readonly_writes_stay_local [OF demo_requests(3,5,4), of "demo_proxy ReadOnlyDeny False" "\<lambda>_ q. (Inl EOF, q)" "demo_seen 6"]
  by (simp add: demo_proxy_def NewProxy_def demo_write_def)

text \<open>
  A request that violates the protocol's limits never reaches the cache or the device. The
  client gets an exception response with its function code and one of the codes illegal function,
  illegal address, illegal value, and nothing changes.
\<close>

lemma invalid_request_rejected:
  assumes "\<not> valid_request req"
  shows "\<exists>c \<in> {0x01, 0x02, 0x03}. HandleRequest exec o1 (Some req) p =
    Some (Returns (Inr [FunctionCode req OR 0x80, c], p))"
proof -
  obtain e where e: "ValidateRequest (Some req) = Some e"
    using assms ValidateRequest_iff [of req] by (cases "ValidateRequest (Some req)") auto
  obtain c m where "e = validationError c (Plain m)" "c \<in> {0x01, 0x02, 0x03}"
    using ValidateRequest_error [OF e] by (auto simp: mb_consts)
  with e show ?thesis
    by (auto simp: HandleRequest_def BuildExceptionResponse_def DownstreamException_validation)
qed

text \<open>
  C25: Stale data is served exactly when it may be. When the coalesced fetch of an accepted read
  has failed, the client gets the error itself if the device answered with an exception, if the
  request's own context is over, if stale serving is off or if some value is missing; otherwise it
  gets the response made of the stored values, however old.
\<close>

theorem stale_fallback:
  assumes "valid_request req" and "IsReadFunction (FunctionCode req)"
    and "GetRange (hitClock o1) (pcache p) (SlaveID req) (FunctionCode req) (Address req) (Quantity req) = None"
    and "CoalesceWithStatus (iterations o1) False 0 (fetchAndStore exec o1 req (writeGeneration p)) (Returns p) =
      Some ((Inl err, cr), Returns p')"
    and "cache_wf (pcache (meanwhile o1 p'))"
  shows "\<exists>r p''. HandleRequest exec o1 (Some req) p = Some (Returns (r, p'')) \<and>
    (case r of
       Inl err' \<Rightarrow> err' = err \<and>
         (\<not> CacheServeStale (pcfg p') \<or> ErrorKindOf (Some err) = ErrorProtocolException \<or>
          \<not> requestContextActive (ctxErr o1) (ctxDeadline o1) (nowAfter o1) \<or>
          GetRangeStale (pcache (meanwhile o1 p')) (SlaveID req) (FunctionCode req) (Address req) (Quantity req) = None)
     | Inr b \<Rightarrow> CacheServeStale (pcfg p') \<and> ErrorKindOf (Some err) \<noteq> ErrorProtocolException \<and>
         requestContextActive (ctxErr o1) (ctxDeadline o1) (nowAfter o1) \<and>
         (\<exists>vs. GetRangeStale (pcache (meanwhile o1 p')) (SlaveID req) (FunctionCode req) (Address req)
             (Quantity req) = Some vs \<and>
           canonical_response (FunctionCode req) (unat (Quantity req)) b \<and>
           decomposeResponse (FunctionCode req) (Quantity req) b = Returns (Some vs)))"
  using handleRead_failed [OF assms(3,4,5,1,2)] unfolding HandleRequest_read [OF assms(1,2)]
  by (fastforce split: sum.splits)

theorem stale_fallback_witness:
  "\<exists>r p''. HandleRequest (\<lambda>_ q. (Inl EOF, q)) (demo_seen 20000000000) (Some demo_read) (demo_cached ReadOnlyOn True) =
     Some (Returns (r, p'')) \<and> (case r of Inl err' \<Rightarrow> False | Inr b \<Rightarrow> canonical_response 3 2 b)"
  using stale_fallback [OF demo_requests(1,2) demo_stale_run(1,2)] demo_cached_wf demo_stale_run(3-6)
    demo_lookup(4) [of ReadOnlyOn True]
  by (fastforce simp: demo_read_def split: sum.splits)

text \<open>
  C23: The handler cannot crash the process. As long as the upstream and the other requests keep
  the stored values well-formed, a request that finishes finishes without a panic and keeps them
  well-formed too, for every request a client can send.
\<close>

theorem handler_never_panics:
  assumes "cache_wf (pcache p)" and "\<And>r q. cache_wf (pcache q) \<Longrightarrow> cache_wf (pcache (snd (exec r q)))"
    and "\<And>q. cache_wf (pcache q) \<Longrightarrow> cache_wf (pcache (meanwhile o1 q))"
    and "HandleRequest exec o1 reqp p = Some out"
  shows "\<exists>r p'. out = Returns (r, p') \<and> cache_wf (pcache p')"
proof (cases "\<exists>req. reqp = Some req \<and> valid_request req")
  case True
  then obtain req where req: "reqp = Some req" "valid_request req" by blast
  have wr: "cache_wf (pcache (snd (handleWrite exec req p)))"
    using assms(1) assms(2) [OF cache_wf_bump [OF assms(1)], of req req]
    by (auto simp: handleWrite_def Let_def intro: cache_wf_bump split: readOnlyMode.split prod.split)
  show ?thesis
  proof (cases "IsReadFunction (FunctionCode req)")
    case rd: True
    then show ?thesis
      using handleRead_wf [where exec = exec, OF assms(1) req(2) rd assms(2) [OF assms(1)] assms(3)] assms(4)
      unfolding req(1) HandleRequest_read [OF req(2) rd] by blast
  next
    case False
    then show ?thesis using assms(4) wr assms(2) [OF assms(1), of req]
      unfolding req(1) HandleRequest_valid [OF req(2)] handlePassthrough_def
      by (auto split: if_splits) (metis prod.collapse)+
  qed
next
  case False
  then have "ValidateRequest reqp \<noteq> None"
    using ValidateRequest_iff by (cases reqp) (auto simp: ValidateRequest_def)
  then show ?thesis using assms(1,4) by (auto simp: HandleRequest_def split: option.splits)
qed

theorem handler_never_panics_witness:
  "\<exists>r p'. HandleRequest (\<lambda>_ q. (Inr [3, 4, 0, 1, 0], q)) (demo_seen 6) (Some demo_read) (demo_proxy ReadOnlyOn True) =
     Some (Returns (r, p')) \<and> cache_wf (pcache p')"
proof -
  let ?E = "\<lambda>_ q. (Inr [3, 4, 0, 1, 0], q)"
  have wf: "cache_wf (pcache (demo_proxy ReadOnlyOn True))"
    by (simp add: demo_proxy_def NewProxy_def cache_wf_NewCache)
  have dec: "decomposeResponse 3 2 [3, 4, 0, 1, 0] = Returns None"
    using decompose_regs [of 3 2 "[3, 4, 0, 1, 0]"] by (simp add: mb_consts)
  have "CoalesceWithStatus (iterations (demo_seen 6)) False 0
      (fetchAndStore ?E (demo_seen 6) demo_read (writeGeneration (demo_proxy ReadOnlyOn True)))
      (Returns (demo_proxy ReadOnlyOn True)) =
    Some ((Inr [3, 4, 0, 1, 0], \<lparr>Coalesced = False, Waited = False, WaitDuration = 0\<rparr>),
      Returns (demo_proxy ReadOnlyOn True))"
    using dec by (simp add: demo_seen_def demo_iter_def fetchAndStore_def storeFetched_def demo_read_def)
  then have "HandleRequest ?E (demo_seen 6) (Some demo_read) (demo_proxy ReadOnlyOn True) =
      Some (Returns (Inr [3, 4, 0, 1, 0], demo_proxy ReadOnlyOn True))"
    unfolding HandleRequest_read [OF demo_requests(1,2)] using demo_lookup(2) [of ReadOnlyOn True]
    by (intro handleRead_miss_cases) (simp_all add: demo_read_def demo_seen_def)
  with handler_never_panics [OF wf _ _ this] show ?thesis by (simp add: demo_seen_def)
qed

text \<open>
  Only reads of the same range in the same write generation share a fetch: two coalescing
  keys are equal exactly when generation, slave, function, address and quantity are.
\<close>

lemma coalesceKey_separates:
  "coalesceKey g req = coalesceKey g' req' \<longleftrightarrow>
     g = g' \<and> SlaveID req = SlaveID req' \<and> FunctionCode req = FunctionCode req' \<and>
     Address req = Address req' \<and> Quantity req = Quantity req'"
  by (simp add: coalesceKey_def RangeKey_inj split_at_first fmt_d_inj word_unat_eq_iff)

text \<open>
  The retry budget is the sum of the positive durations, or the largest duration if that sum
  does not fit: the 64-bit additions and subtractions of the source never wrap around.
\<close>

lemma saturatingDurationSum_exact:
  "sint (saturatingDurationSum ds) = min (2 ^ 63 - 1) (sum_list (map (\<lambda>d. max 0 (sint d)) ds))"
  using componentLoop_sint [of 0 ds] by (simp add: saturatingDurationSum_def saturatingDurationLoop_client)

end
