(* ===== verification/Server_Loop.thy ===== *)
theory Server_Loop
  imports Modbus_Frame
begin

text \<open>
  The server of \<^verbatim>\<open>internal/modbus/server.go\<close>. \<open>handleConn\<close> is the loop that serves
  one client connection: read a request, hand it to the handler, frame the answer or the exception.
  The handler is an interface in the source; here it is the locale \<open>request_handler\<close>. The
  second part is the life of the server: \<open>Serve\<close>, \<open>Close\<close> and \<open>Wait\<close> as an interleaving of
  the accept loop, the connection goroutines and the goroutine that shuts down.
\<close>

subsection \<open>One connection\<close>

text \<open>
  What an iteration observes besides the bytes of the client: whether the server's context is
  done, the clock when it starts to read, when the request has been read and when the request's
  context is checked after the handler returned, the error of that context then, and the error of
  \<^verbatim>\<open>conn.Write\<close>.
\<close>

record iteration =
  serverDone :: bool
  readAt :: time
  startedAt :: time
  ctxErrAfter :: "goerror option"
  checkedAt :: time
  writeErr :: "goerror option"

definition connReadTimeout :: duration where
  "connReadTimeout = 60 * second"

text \<open>
  The deadline of the request's context, and \<^verbatim>\<open>contextError(requestCtx)\<close> after the handler. The
  context of the server itself has no deadline, it can only be cancelled.
\<close>

definition requestContext :: "duration \<Rightarrow> time \<Rightarrow> time option" where
  "requestContext request_timeout now = (if 0 <s request_timeout then Some (time_add now request_timeout) else None)"

definition requestErr :: "duration \<Rightarrow> iteration \<Rightarrow> goerror option" where
  "requestErr request_timeout it = (case ctxErrAfter it of
     Some err \<Rightarrow> Some err
   | None \<Rightarrow> (case requestContext request_timeout (startedAt it) of
       Some deadline \<Rightarrow> if checkedAt it < deadline then None else Some DeadlineExceeded
     | None \<Rightarrow> None))"

text \<open>
  A handler runs in some state and may panic; \<open>None\<close> means that it has not returned. The first
  argument is the index of the iteration, so that what the handler observes can differ from call
  to call; the second is the deadline of the context it is called with.
\<close>

type_synonym 's handler = "nat \<Rightarrow> time option \<Rightarrow> request \<Rightarrow> 's \<Rightarrow> ((goerror + bytes) \<times> 's) go option"

datatype conn_end = ServerDone | ReadFailed goerror | WriteFailed goerror | HandlerWaits | Crashed | StillOpen

text \<open>What the loop does to its connection.\<close>

datatype conn_act = ReadUntil time | WriteFrame bytes

fun frames :: "conn_act list \<Rightarrow> bytes list" where
  "frames [] = []"
| "frames (ReadUntil t # as) = frames as"
| "frames (WriteFrame f # as) = f # frames as"

lemma frames_append [simp]: "frames (as @ bs) = frames as @ frames bs"
  by (induction as rule: frames.induct) auto

text \<open>\<open>served\<close> lists the requests with the PDU that was sent for each, newest last.\<close>

record 's conn_run =
  ended :: conn_end
  served :: "(request \<times> bytes) list"
  acts :: "conn_act list"
  rest_in :: conn_in
  hstate :: 's

abbreviation written :: "'s conn_run \<Rightarrow> bytes list" where
  "written r \<equiv> frames (acts r)"

definition responsePDU :: "request \<Rightarrow> goerror option \<Rightarrow> goerror + bytes \<Rightarrow> bytes" where
  "responsePDU req ctx_err r = (case r of
     Inl err \<Rightarrow> buildExceptionResponse req (DownstreamException err)
   | Inr resp \<Rightarrow>
       (case ctx_err of
          Some err \<Rightarrow> buildExceptionResponse req (DownstreamException err)
        | None \<Rightarrow> resp))"

fun handleConn ::
  "duration \<Rightarrow> 's handler \<Rightarrow> nat \<Rightarrow> iteration list \<Rightarrow> conn_in \<Rightarrow> 's \<Rightarrow> (request \<times> bytes) list \<Rightarrow> conn_act list \<Rightarrow> 's conn_run" where
  "handleConn rt handle i [] c s done_reqs out =
     \<lparr>ended = StillOpen, served = done_reqs, acts = out, rest_in = c, hstate = s\<rparr>"
| "handleConn rt handle i (it # its) c s done_reqs out =
     (let stop = (\<lambda>why c s d o1. \<lparr>ended = why, served = d, acts = o1, rest_in = c, hstate = s\<rparr>);
          reading = out @ [ReadUntil (time_add (readAt it) connReadTimeout)] in
      if serverDone it then stop ServerDone c s done_reqs out
      else (case readRequest c of
              Panics \<Rightarrow> stop Crashed c s done_reqs reading
            | Returns (Inl err, c') \<Rightarrow> stop (ReadFailed err) c' s done_reqs reading
            | Returns (Inr req, c') \<Rightarrow>
                (case handle i (requestContext rt (startedAt it)) req s of
                   None \<Rightarrow> stop HandlerWaits c' s done_reqs reading
                 | Some Panics \<Rightarrow> stop Crashed c' s done_reqs reading
                 | Some (Returns (r, s')) \<Rightarrow>
                     let pdu = responsePDU req (requestErr rt it) r;
                         frame = writeResponse (TransactionID req) (SlaveID req) pdu
                     in case writeErr it of
                          Some err \<Rightarrow> stop (WriteFailed err) c' s' done_reqs reading
                        | None \<Rightarrow> handleConn rt handle (Suc i) its c' s' (done_reqs @ [(req, pdu)])
                            (reading @ [WriteFrame frame]))))"

definition serveConn :: "duration \<Rightarrow> 's handler \<Rightarrow> iteration list \<Rightarrow> conn_in \<Rightarrow> 's \<Rightarrow> 's conn_run" where
  "serveConn rt handle its c s = handleConn rt handle 0 its c s [] []"

text \<open>The frame a request arrived in, and the frame its answer leaves in.\<close>

definition request_frame :: "request \<Rightarrow> bytes" where
  "request_frame req = writeResponse (TransactionID req) (SlaveID req) (PDU req)"

definition response_frame :: "request \<times> bytes \<Rightarrow> bytes" where
  "response_frame x = writeResponse (TransactionID (fst x)) (SlaveID (fst x)) (snd x)"

text \<open>The acts of an iteration that answers a request.\<close>

definition round_acts :: "iteration \<Rightarrow> request \<times> bytes \<Rightarrow> conn_act list" where
  "round_acts it x = [ReadUntil (time_add (readAt it) connReadTimeout), WriteFrame (response_frame x)]"

text \<open>
  An iteration either answers its request and the loop goes on, or the loop ends with what was
  served before, having set at most one more read deadline.
\<close>

lemma handleConn_step:
  obtains (answers) req c' r s' where "readRequest c = Returns (Inr req, c')"
      "handle i (requestContext rt (startedAt it)) req s = Some (Returns (r, s'))"
      "handleConn rt handle i (it # its) c s d out = handleConn rt handle (Suc i) its c' s'
        (d @ [(req, responsePDU req (requestErr rt it) r)])
        (out @ round_acts it (req, responsePDU req (requestErr rt it) r))"
  | (stops) why c' s' where
      "handleConn rt handle i (it # its) c s d out =
        \<lparr>ended = why, served = d, acts = out @ (if why = ServerDone then [] else [ReadUntil (time_add (readAt it) connReadTimeout)]),
         rest_in = c', hstate = s'\<rparr>" "why \<noteq> StillOpen"
proof (cases "\<exists>req c' r s'. \<not> serverDone it \<and> readRequest c = Returns (Inr req, c') \<and>
    handle i (requestContext rt (startedAt it)) req s = Some (Returns (r, s')) \<and> writeErr it = None")
  case True
  then show ?thesis using answers by (auto simp: Let_def round_acts_def response_frame_def)
next
  case False
  have "\<exists>why c' s'. handleConn rt handle i (it # its) c s d out =
      \<lparr>ended = why, served = d, acts = out @ (if why = ServerDone then [] else [ReadUntil (time_add (readAt it) connReadTimeout)]),
       rest_in = c', hstate = s'\<rparr> \<and> why \<noteq> StillOpen"
    using False by (auto simp: Let_def split: go.split prod.split sum.split option.split)
  then show ?thesis using stops by blast
qed

lemma handleConn_order:
  assumes "frames out = map response_frame done_reqs"
    and "inbuf c0 = concat (map (request_frame \<circ> fst) done_reqs) @ inbuf c"
    and "\<forall>x \<in> set done_reqs. parsed_request (fst x)"
  shows "let r = handleConn rt handle i its c s done_reqs out in
    written r = map response_frame (served r) \<and>
    (\<exists>tail. inbuf c0 = concat (map (request_frame \<circ> fst) (served r)) @ tail) \<and>
    (\<forall>x \<in> set (served r). parsed_request (fst x))"
  using assms
proof (induction its arbitrary: i c s done_reqs out)
  case Nil
  then show ?case by auto
next
  case (Cons it its)
  show ?case
  proof (cases rule: handleConn_step [of c handle i rt it s its done_reqs out])
    case (answers req c' r s')
    let ?x = "(req, responsePDU req (requestErr rt it) r)"
    show ?thesis unfolding answers(3)
      by (rule Cons.IH) (use Cons.prems readRequest_frame [OF answers(1)] in
          \<open>auto simp: request_frame_def round_acts_def\<close>)
  next
    case (stops why c' s')
    then show ?thesis using Cons.prems by auto
  qed
qed

text \<open>Every request read takes at least eight bytes of the input: the loop ends.\<close>

lemma readRequest_consumes:
  assumes "readRequest c = Returns (Inr req, c')"
  shows "length (inbuf c') + 8 \<le> length (inbuf c)"
proof -
  have "PDU req \<noteq> []" using readRequest_frame(3) [OF assms] by (simp add: parsed_request_def)
  then have "1 \<le> length (PDU req)" by (cases "PDU req") simp_all
  then show ?thesis using readRequest_frame(1) [OF assms] by (simp add: writeResponse_def)
qed

lemma handleConn_ends:
  "length (inbuf c) < 8 * length its \<Longrightarrow> ended (handleConn rt handle i its c s d out) \<noteq> StillOpen \<and>
     8 * length (served (handleConn rt handle i its c s d out)) \<le> 8 * length d + length (inbuf c)"
proof (induction its arbitrary: i c s d out)
  case (Cons it its)
  show ?case
  proof (cases rule: handleConn_step [of c handle i rt it s its d out])
    case (answers req c' r s')
    let ?x = "(req, responsePDU req (requestErr rt it) r)"
    show ?thesis using Cons.prems readRequest_consumes [OF answers(1)]
        Cons.IH [of c' "Suc i" s' "d @ [?x]" "out @ round_acts it ?x"] unfolding answers(3) by simp
  next
    case (stops why c' s')
    then show ?thesis by simp
  qed
qed simp

text \<open>
  The answers of a run against its iterations: the \<open>k\<close>-th answer belongs to the \<open>k\<close>-th iteration,
  and is an exception if the request's context was over when the handler had returned.
\<close>

definition answered_in :: "duration \<Rightarrow> iteration \<Rightarrow> request \<times> bytes \<Rightarrow> bool" where
  "answered_in rt it x \<longleftrightarrow> (\<forall>err. requestErr rt it = Some err \<longrightarrow>
     (\<exists>code. snd x = buildExceptionResponse (fst x) code))"

lemma responsePDU_answered: "answered_in rt it (req, responsePDU req (requestErr rt it) r)"
  by (auto simp: answered_in_def responsePDU_def split: sum.split)

lemma handleConn_rounds:
  "\<exists>new tail. served (handleConn rt handle i its c s d out) = d @ new \<and> length new \<le> length its \<and>
     acts (handleConn rt handle i its c s d out) = out @ concat (map2 round_acts its new) @ tail \<and>
     (tail = [] \<or> (\<exists>it. drop (length new) its = it # tl (drop (length new) its) \<and>
        tail = [ReadUntil (time_add (readAt it) connReadTimeout)])) \<and>
     list_all2 (answered_in rt) (take (length new) its) new"
proof (induction its arbitrary: i c s d out)
  case (Cons it its)
  show ?case
  proof (cases rule: handleConn_step [of c handle i rt it s its d out])
    case (answers req c' r s')
    let ?x = "(req, responsePDU req (requestErr rt it) r)"
    from Cons.IH [of "Suc i" c' s' "d @ [?x]" "out @ round_acts it ?x"]
    obtain new tail where n: "served (handleConn rt handle i (it # its) c s d out) = (d @ [?x]) @ new"
        "length new \<le> length its"
        "acts (handleConn rt handle i (it # its) c s d out) =
           (out @ round_acts it ?x) @ concat (map2 round_acts its new) @ tail"
        "tail = [] \<or> (\<exists>it. drop (length new) its = it # tl (drop (length new) its) \<and>
           tail = [ReadUntil (time_add (readAt it) connReadTimeout)])"
        "list_all2 (answered_in rt) (take (length new) its) new"
      unfolding answers(3) by blast
    then show ?thesis using responsePDU_answered [of rt it req r]
      by (intro exI [of _ "?x # new"] exI [of _ tail]) auto
  next
    case (stops why c' s')
    then show ?thesis
      by (intro exI [of _ "[]"] exI [of _ "if why = ServerDone then [] else [ReadUntil (time_add (readAt it) connReadTimeout)]"])
        auto
  qed
qed simp

definition demo_round :: iteration where
  "demo_round = \<lparr>serverDone = False, readAt = 10, startedAt = 20, ctxErrAfter = None, checkedAt = 30, writeErr = None\<rparr>"

subsection \<open>The handler interface\<close>

text \<open>
  What the server needs of a handler: it does not panic on a request the parser produced, as long
  as its own invariant holds, and it keeps that invariant.
\<close>

locale request_handler =
  fixes handle :: "'s handler" and good :: "'s \<Rightarrow> bool"
  assumes handle_safe: "good s \<Longrightarrow> parsed_request req \<Longrightarrow> handle i dl req s = Some out \<Longrightarrow>
    \<exists>r s'. out = Returns (r, s') \<and> good s'"
begin

lemma handleConn_safe:
  "good s \<Longrightarrow> ended (handleConn rt handle i its c s d out) \<noteq> Crashed \<and> good (hstate (handleConn rt handle i its c s d out))"
proof (induction its arbitrary: i c s d out)
  case (Cons it its)
  show ?case
  proof (cases "readRequest c")
    case Panics
    then show ?thesis using readRequest_no_panic by simp
  next
    case (Returns x)
    obtain rr c' where x: "x = (rr, c')" by (cases x)
    show ?thesis
    proof (cases rr)
      case (Inl err)
      then show ?thesis using Returns x Cons.prems by (simp add: Let_def)
    next
      case (Inr req)
      then have p: "parsed_request req" using readRequest_frame(3) Returns x by blast
      show ?thesis
      proof (cases "handle i (requestContext rt (startedAt it)) req s")
        case None
        then show ?thesis using Returns x Inr Cons.prems by (simp add: Let_def)
      next
        case (Some o1)
        from handle_safe [OF Cons.prems p Some] obtain r s' where "o1 = Returns (r, s')" "good s'" by blast
        then show ?thesis using Returns x Inr Some Cons.prems Cons.IH [of s']
          by (auto simp: Let_def split: option.split)
      qed
    qed
  qed
qed simp

end

subsection \<open>The life of the server\<close>

text \<open>
  A connection on its way: accepted by the loop, entered in \<^verbatim>\<open>conns\<close> under the lock,
  counted by \<^verbatim>\<open>wg.Add(1)\<close> with its goroutine started. The goroutine ends by closing its
  socket, leaving the table under the lock, and \<^verbatim>\<open>wg.Done()\<close>. \<open>socketOpen\<close> is the set of
  connections whose socket is open, \<open>known\<close> the connections accepted so far,
  \<open>waitReturned\<close> whether a call of \<^verbatim>\<open>Wait\<close> after \<^verbatim>\<open>Close\<close> has returned.
\<close>

datatype serve_pc = Accepting | Accepted nat | Registered nat | ServeReturned

record server =
  conns :: "nat set"
  shutdown :: bool
  listening :: bool
  wg :: nat
  spc :: serve_pc
  running :: "nat set"
  leaving :: "nat set"
  socketOpen :: "nat set"
  known :: "nat set"
  waitReturned :: bool

definition NewServer :: server where
  "NewServer = \<lparr>conns = {}, shutdown = False, listening = True, wg = 0, spc = Accepting, running = {},
     leaving = {}, socketOpen = {}, known = {}, waitReturned = False\<rparr>"

inductive sstep :: "server \<Rightarrow> server \<Rightarrow> bool" where
  accept: "spc s = Accepting \<Longrightarrow> listening s \<Longrightarrow> c \<notin> known s \<Longrightarrow>
    sstep s (s\<lparr>spc := Accepted c, socketOpen := insert c (socketOpen s), known := insert c (known s)\<rparr>)"
| accept_error: "spc s = Accepting \<Longrightarrow> \<not> shutdown s \<Longrightarrow> sstep s s"
| accept_closed: "spc s = Accepting \<Longrightarrow> shutdown s \<Longrightarrow> sstep s (s\<lparr>spc := ServeReturned\<rparr>)"
| refuse: "spc s = Accepted c \<Longrightarrow> shutdown s \<Longrightarrow>
    sstep s (s\<lparr>spc := ServeReturned, socketOpen := socketOpen s - {c}\<rparr>)"
| register: "spc s = Accepted c \<Longrightarrow> \<not> shutdown s \<Longrightarrow>
    sstep s (s\<lparr>spc := Registered c, conns := insert c (conns s)\<rparr>)"
| spawn: "spc s = Registered c \<Longrightarrow>
    sstep s (s\<lparr>spc := Accepting, wg := wg s + 1, running := insert c (running s)\<rparr>)"
| conn_close: "c \<in> running s \<Longrightarrow> sstep s (s\<lparr>socketOpen := socketOpen s - {c}\<rparr>)"
| conn_delete: "c \<in> running s \<Longrightarrow> c \<notin> socketOpen s \<Longrightarrow>
    sstep s (s\<lparr>running := running s - {c}, leaving := insert c (leaving s), conns := conns s - {c}\<rparr>)"
| conn_done: "c \<in> leaving s \<Longrightarrow> sstep s (s\<lparr>leaving := leaving s - {c}, wg := wg s - 1\<rparr>)"
| close_conns: "\<not> shutdown s \<Longrightarrow>
    sstep s (s\<lparr>shutdown := True, socketOpen := socketOpen s - conns s\<rparr>)"
| close_listener: "shutdown s \<Longrightarrow> sstep s (s\<lparr>listening := False\<rparr>)"
| wait: "shutdown s \<Longrightarrow> \<not> listening s \<Longrightarrow> wg s = 0 \<Longrightarrow> sstep s (s\<lparr>waitReturned := True\<rparr>)"

inductive sreachable :: "server \<Rightarrow> bool" where
  start: "sreachable NewServer"
| step: "sreachable s \<Longrightarrow> sstep s t \<Longrightarrow> sreachable t"

text \<open>
  The table holds the connections whose goroutine runs and the one that is about to be started;
  the wait group counts the goroutines; after \<open>Close\<close> no connection in the table has an open
  socket; after \<open>Wait\<close> at most one goroutine is left.
\<close>

definition pending :: "server \<Rightarrow> nat set" where
  "pending s = (case spc s of Registered c \<Rightarrow> {c} | _ \<Rightarrow> {})"

definition fresh_conn :: "server \<Rightarrow> nat set" where
  "fresh_conn s = (case spc s of Accepted c \<Rightarrow> {c} | _ \<Rightarrow> {})"

definition table_ok :: "server \<Rightarrow> bool" where
  "table_ok s \<longleftrightarrow> conns s = running s \<union> pending s \<and> pending s \<inter> (running s \<union> leaving s) = {} \<and>
     running s \<union> leaving s \<union> pending s \<union> fresh_conn s \<subseteq> known s \<and> running s \<inter> leaving s = {} \<and>
     fresh_conn s \<inter> (running s \<union> leaving s) = {}"

definition count_ok :: "server \<Rightarrow> bool" where
  "count_ok s \<longleftrightarrow> finite (running s \<union> leaving s) \<and> wg s = card (running s \<union> leaving s)"

definition sockets_ok :: "server \<Rightarrow> bool" where
  "sockets_ok s \<longleftrightarrow> socketOpen s \<subseteq> conns s \<union> fresh_conn s \<and> (shutdown s \<longrightarrow> socketOpen s \<inter> conns s = {})"

definition wait_ok :: "server \<Rightarrow> bool" where
  "wait_ok s \<longleftrightarrow> (waitReturned s \<longrightarrow> shutdown s \<and> card (running s \<union> leaving s \<union> pending s) \<le> 1)"

lemmas server_inv_defs = table_ok_def count_ok_def sockets_ok_def wait_ok_def pending_def fresh_conn_def

lemma table_ok_step: "sstep s t \<Longrightarrow> table_ok s \<Longrightarrow> table_ok t"
  by (induction rule: sstep.induct) (auto simp: server_inv_defs)

lemma sockets_ok_step: "sstep s t \<Longrightarrow> table_ok s \<Longrightarrow> sockets_ok s \<Longrightarrow> sockets_ok t"
  by (induction rule: sstep.induct) (auto simp: server_inv_defs)

lemma count_ok_step: "sstep s t \<Longrightarrow> table_ok s \<Longrightarrow> count_ok s \<Longrightarrow> count_ok t"
proof (induction rule: sstep.induct)
  case (conn_delete c s)
  then have "running s - {c} \<union> insert c (leaving s) = running s \<union> leaving s" by auto
  with conn_delete show ?case by (simp add: count_ok_def)
next
  case (conn_done c s)
  then have "running s \<union> (leaving s - {c}) = (running s \<union> leaving s) - {c}" by (auto simp: table_ok_def)
  with conn_done show ?case by (simp add: count_ok_def)
qed (auto simp: server_inv_defs)

lemma wait_ok_step: "sstep s t \<Longrightarrow> table_ok s \<Longrightarrow> count_ok s \<Longrightarrow> wait_ok s \<Longrightarrow> wait_ok t"
proof (induction rule: sstep.induct)
  case (conn_delete c s)
  then have "running s - {c} \<union> insert c (leaving s) = running s \<union> leaving s" by auto
  with conn_delete show ?case by (simp add: wait_ok_def pending_def)
next
  case (conn_done c s)
  then have sub: "running s \<union> (leaving s - {c}) \<union> pending s \<subseteq> running s \<union> leaving s \<union> pending s" by auto
  have "finite (running s \<union> leaving s \<union> pending s)"
    using conn_done(3) by (auto simp: count_ok_def pending_def split: serve_pc.split)
  from card_mono [OF this sub] conn_done show ?case by (auto simp: wait_ok_def pending_def)
next
  case (wait s)
  then show ?case by (auto simp: server_inv_defs split: serve_pc.split)
qed (auto simp: wait_ok_def pending_def)

lemma server_invs:
  assumes "sreachable s"
  shows "table_ok s \<and> count_ok s \<and> sockets_ok s \<and> wait_ok s"
  using assms
proof induction
  case start
  show ?case by (simp add: server_inv_defs NewServer_def)
next
  case (step s t)
  then show ?case using table_ok_step count_ok_step sockets_ok_step wait_ok_step by blast
qed

text \<open>
  A run in which a connection is entered in the table, \<open>Close\<close> and \<open>Wait\<close> return, and the
  goroutine is still to be started.
\<close>

definition missed_conn :: server where
  "missed_conn = \<lparr>conns = {0}, shutdown = True, listening = False, wg = 0, spc = Registered 0, running = {},
     leaving = {}, socketOpen = {}, known = {0}, waitReturned = True\<rparr>"

lemma missed_conn_reachable:
  "sreachable (missed_conn\<lparr>waitReturned := False\<rparr>)" "sreachable missed_conn"
proof -
  let ?s1 = "NewServer\<lparr>spc := Accepted 0, socketOpen := {0}, known := {0}\<rparr>"
  let ?s2 = "?s1\<lparr>spc := Registered 0, conns := {0}\<rparr>"
  let ?s3 = "?s2\<lparr>shutdown := True, socketOpen := {}\<rparr>"
  let ?s4 = "?s3\<lparr>listening := False\<rparr>"
  have "sstep NewServer ?s1" using sstep.accept [of NewServer 0] by (simp add: NewServer_def)
  then have 1: "sreachable ?s1" by (rule sreachable.step [OF sreachable.start])
  have "sstep ?s1 ?s2" using sstep.register [of ?s1 0] by (simp add: NewServer_def)
  then have 2: "sreachable ?s2" by (rule sreachable.step [OF 1])
  have "sstep ?s2 ?s3" using sstep.close_conns [of ?s2] by (simp add: NewServer_def)
  then have 3: "sreachable ?s3" by (rule sreachable.step [OF 2])
  have "sstep ?s3 ?s4" using sstep.close_listener [of ?s3] by simp
  then have 4: "sreachable ?s4" by (rule sreachable.step [OF 3])
  then show 5: "sreachable (missed_conn\<lparr>waitReturned := False\<rparr>)" by (simp add: missed_conn_def NewServer_def)
  from sreachable.step [OF 5 sstep.wait] show "sreachable missed_conn" by (simp add: missed_conn_def)
qed

subsection \<open>Properties\<close>

text \<open>
  C15: Every client gets its answers in the order of its requests. Whatever the handler does and
  however the connection ends, the frames written are one per request read, in order, each with
  the transaction id and the slave id of its request; the requests are exactly what the bytes of
  the client start with.
\<close>

theorem responses_in_request_order:
  "written (serveConn rt handle its c s) =
     map (\<lambda>(req, pdu). writeResponse (TransactionID req) (SlaveID req) pdu) (served (serveConn rt handle its c s)) \<and>
   (\<exists>tail. inbuf c = concat (map (\<lambda>(req, pdu). writeResponse (TransactionID req) (SlaveID req) (PDU req))
      (served (serveConn rt handle its c s))) @ tail)"
  using handleConn_order [of "[]" "[]" c c rt handle 0 its s]
  by (auto simp: serveConn_def Let_def response_frame_def [abs_def] request_frame_def [abs_def] case_prod_beta'
      comp_def)

text \<open>
  C31: Shutting down leaves no served connection open. Once \<open>Close\<close> has set the flag, no
  connection in the server's table has an open socket and none is added; the only socket that can
  still be open is the one the accept loop has just received and is about to refuse.
\<close>

theorem close_closes_connections:
  assumes "sreachable s" and "shutdown s"
  shows "socketOpen s \<inter> conns s = {} \<and> (\<forall>c \<in> socketOpen s. spc s = Accepted c) \<and>
    (\<forall>t. sstep s t \<longrightarrow> conns t \<subseteq> conns s)"
proof -
  have inv: "sockets_ok s" using server_invs [OF assms(1)] by blast
  have "socketOpen s \<subseteq> fresh_conn s" using inv assms(2) by (auto simp: sockets_ok_def)
  then have "\<forall>c \<in> socketOpen s. spc s = Accepted c" by (auto simp: fresh_conn_def split: serve_pc.splits)
  moreover have "conns t \<subseteq> conns s" if "sstep s t" for t
    using that assms(2) by (cases rule: sstep.cases) auto
  ultimately show ?thesis using inv assms(2) by (auto simp: sockets_ok_def)
qed

theorem close_closes_connections_witness:
  "\<exists>s. sreachable s \<and> shutdown s \<and> conns s = {0} \<and> socketOpen s \<inter> conns s = {}"
proof -
  have "sreachable (missed_conn\<lparr>waitReturned := False\<rparr>)" by (rule missed_conn_reachable(1))
  from close_closes_connections [OF this] show ?thesis
    by (intro exI [of _ "missed_conn\<lparr>waitReturned := False\<rparr>"])
      (use missed_conn_reachable in \<open>simp add: missed_conn_def\<close>)
qed

text \<open>
  C32: \<open>Wait\<close> waits for all connection goroutines but possibly one. After it has returned at most
  one goroutine is running or about to be started; and there is a run in which one is: the
  connection was entered in the table, then \<open>Close\<close> and \<open>Wait\<close> ran, and only then the wait group
  was incremented.
\<close>

theorem wait_misses_at_most_one:
  "(\<forall>s. sreachable s \<longrightarrow> waitReturned s \<longrightarrow> card (running s \<union> leaving s \<union> pending s) \<le> 1) \<and>
   (\<exists>s c. sreachable s \<and> waitReturned s \<and> c \<in> running s)"
proof -
  from sreachable.step [OF missed_conn_reachable(2) sstep.spawn [of missed_conn 0]]
  have "\<exists>s c. sreachable s \<and> waitReturned s \<and> c \<in> running s"
    by (auto simp: missed_conn_def intro!: exI)
  then show ?thesis using server_invs by (auto simp: wait_ok_def)
qed

theorem wait_misses_at_most_one_witness:
  "card (running missed_conn \<union> leaving missed_conn \<union> pending missed_conn) \<le> 1"
proof -
  have "waitReturned missed_conn" by (simp add: missed_conn_def)
  with wait_misses_at_most_one missed_conn_reachable(2) show ?thesis by blast
qed



text \<open>
  C16: The timing of a connection. Before every request is read the connection gets a new read
  deadline of 60 seconds, and nothing else is done to it between two answers; the answers belong to
  the iterations in order. A request whose context is over when the handler returns, because the
  server stops or because the request timeout has passed since the request was read, is answered with
  an exception, even if the handler delivered a response.
\<close>

theorem connection_timing:
  "\<exists>rounds tail. length (served (serveConn rt handle its c s)) = length rounds \<and>
     acts (serveConn rt handle its c s) = concat (map (\<lambda>(it, req, pdu).
       [ReadUntil (readAt it + 60 * 10 ^ 9), WriteFrame (writeResponse (TransactionID req) (SlaveID req) pdu)]) rounds) @ tail \<and>
     length tail \<le> 1 \<and> map snd rounds = served (serveConn rt handle its c s) \<and> map fst rounds = take (length rounds) its \<and>
     (\<forall>(it, req, pdu) \<in> set rounds. ctxErrAfter it \<noteq> None \<or> (0 <s rt \<and> startedAt it + sint rt \<le> checkedAt it) \<longrightarrow>
        (\<exists>code. pdu = buildExceptionResponse req code))"
proof -
  from handleConn_rounds [of rt handle 0 its c s "[]" "[]"]
  obtain new tail where n: "served (serveConn rt handle its c s) = new" "length new \<le> length its"
      "acts (serveConn rt handle its c s) = concat (map2 round_acts its new) @ tail"
      "length tail \<le> 1" "list_all2 (answered_in rt) (take (length new) its) new"
    unfolding serveConn_def by fastforce
  let ?rounds = "zip (take (length new) its) new"
  have zip: "?rounds = zip its new" by (rule nth_equalityI) (use n(2) in auto)
  have read: "round_acts it x = (\<lambda>(it, req, pdu). [ReadUntil (readAt it + 60 * 10 ^ 9),
      WriteFrame (writeResponse (TransactionID req) (SlaveID req) pdu)]) (it, x)" for it x
    by (simp add: round_acts_def response_frame_def connReadTimeout_def second_def time_add_def split_beta)
  have acts: "acts (serveConn rt handle its c s) = concat (map (\<lambda>(it, req, pdu).
      [ReadUntil (readAt it + 60 * 10 ^ 9), WriteFrame (writeResponse (TransactionID req) (SlaveID req) pdu)]) ?rounds) @ tail"
    unfolding n(3) zip by (simp add: read split_beta')
  have late: "requestErr rt it \<noteq> None"
    if "ctxErrAfter it \<noteq> None \<or> (0 <s rt \<and> startedAt it + sint rt \<le> checkedAt it)" for it
    using that by (auto simp: requestErr_def requestContext_def time_add_def split: option.split)
  have "\<exists>code. pdu = buildExceptionResponse req code"
    if "(it, req, pdu) \<in> set ?rounds" "requestErr rt it \<noteq> None" for it req pdu
    using that n(5) by (fastforce simp: list_all2_iff answered_in_def)
  with n acts late show ?thesis by (intro exI [of _ ?rounds] exI [of _ tail]) auto
qed

theorem connection_timing_witness:
  "\<exists>(rounds :: (iteration \<times> request \<times> bytes) list) tail. length (served (serveConn second (\<lambda>i dl req s. Some (Returns (Inr [3, 0], s))) [demo_round]
       \<lparr>inbuf = [0, 1, 0, 0, 0, 6, 1, 3, 0, 0, 0, 1], inerr = EOF\<rparr> ())) = length rounds \<and>
     acts (serveConn second (\<lambda>i dl req s. Some (Returns (Inr [3, 0], s))) [demo_round]
       \<lparr>inbuf = [0, 1, 0, 0, 0, 6, 1, 3, 0, 0, 0, 1], inerr = EOF\<rparr> ()) = concat (map (\<lambda>(it, req, pdu).
         [ReadUntil (readAt it + 60 * 10 ^ 9), WriteFrame (writeResponse (TransactionID req) (SlaveID req) pdu)]) rounds) @ tail \<and>
     length tail \<le> 1"
  using connection_timing [of second "\<lambda>i dl req s. Some (Returns (Inr [3, 0], s))" "[demo_round]"
      "\<lparr>inbuf = [0, 1, 0, 0, 0, 6, 1, 3, 0, 0, 0, 1], inerr = EOF\<rparr>" "()"]
  by blast

end
