(* ===== verification/Request_Logs.thy ===== *)
theory Request_Logs
  imports Proxy_Handler Server_Loop
begin

text \<open>
  The log records a request leaves in the server and the proxy: the lines of the connection loop with
  the record of a failed handler call
  (\<^verbatim>\<open>internal/modbus/server.go\<close>) and the records of the proxy's handler
  (\<^verbatim>\<open>internal/proxy/proxy.go\<close>); those of the upstream client are in
  \<open>Upstream_Client\<close>. The lemmas say which records a request leaves, what they attribute to it, and
  what they leave out.
\<close>

subsection \<open>The server\<close>

text \<open>
  The two methods of \<^verbatim>\<open>coalescingError\<close> that make it a marker for
  \<^verbatim>\<open>errors.As\<close>; \<open>None\<close>: the error has no such method.
\<close>

fun CoalescedMethod :: "goerror \<Rightarrow> bool option" where
  "CoalescedMethod (coalescingError b d e) = Some b"
| "CoalescedMethod _ = None"

fun CoalescedWaitDuration :: "goerror \<Rightarrow> duration option" where
  "CoalescedWaitDuration (coalescingError b d e) = Some d"
| "CoalescedWaitDuration _ = None"

text \<open>The two targets \<^verbatim>\<open>logHandlerError\<close> looks for with \<^verbatim>\<open>errors.As\<close>.\<close>

definition asCoalescing :: "goerror \<Rightarrow> (bool \<times> duration) option" where
  "asCoalescing e = (case (CoalescedMethod e, CoalescedWaitDuration e) of
     (Some b, Some d) \<Rightarrow> Some (b, d)
   | _ \<Rightarrow> None)"

fun asRequestErrorFull :: "goerror \<Rightarrow> (byte \<times> int \<times> requestTiming) option" where
  "asRequestErrorFull (RequestError k c n t e) = Some (c, n, t)"
| "asRequestErrorFull _ = None"

definition logHandlerError :: "request \<Rightarrow> goerror \<Rightarrow> byte \<Rightarrow> duration \<Rightarrow> log_record" where
  "logHandlerError req err downstreamException totalDuration =
     (let marker = errorsAs asCoalescing err;
          coalescedWaited = (marker \<noteq> None);
          coalesced = (case marker of Some (b, d) \<Rightarrow> b | None \<Rightarrow> False);
          coalescedWait = (case marker of Some (b, d) \<Rightarrow> d | None \<Rightarrow> 0);
          reqErr = errorsAs asRequestErrorFull err;
          (attempts, queueDuration, attemptDuration, reconnectDuration) =
            (case reqErr of
               Some (c, n, t) \<Rightarrow>
                 if \<not> coalesced then (n, coalescedWait + tqueue t, tattempt t, treconnect t)
                 else (0, coalescedWait, 0, 0)
             | None \<Rightarrow> (0, coalescedWait, 0, 0));
          args = requestAttrs req @
            [(''write'', VBool (IsWriteFunction (FunctionCode req))),
             (''attempt'', VInt attempts), (''attempts'', VInt attempts),
             (''queue_duration'', VDuration queueDuration),
             (''attempt_duration'', VDuration attemptDuration),
             (''reconnect_duration'', VDuration reconnectDuration),
             (''total_duration'', VDuration totalDuration),
             (''error_kind'', VKind (ErrorKindOf (Some err))), (''will_retry'', VBool False),
             (''downstream_exception'', hexByte downstreamException),
             (''coalesced'', VBool coalesced), (''coalesced_waited'', VBool coalescedWaited),
             (''coalesced_wait_duration'', VDuration coalescedWait)];
          args = args @ (if \<not> IsWriteFunction (FunctionCode req) then [(''error'', VError err)] else []);
          args = args @ (case reqErr of
            Some (c, n, t) \<Rightarrow> if c \<noteq> 0 then [(''exception_code'', hexByte c)] else []
          | None \<Rightarrow> [])
      in if ErrorKindOf (Some err) = ErrorContextCanceled
         then \<lparr>recLevel = LevelDebug, recMessage = ''request canceled'', recAttrs = args\<rparr>
         else \<lparr>recLevel = LevelWarn, recMessage = ''request failed'', recAttrs = args\<rparr>)"

text \<open>
  The lines of the connection loop: how it ends when reading fails, the record of a request that
  failed, and the record of an answer that could not be written. The connection's remote address and
  the time each handler call took are arguments.
\<close>

definition readErrorRecord :: "string \<Rightarrow> goerror \<Rightarrow> log_record" where
  "readErrorRecord remote err =
     (if errorsIs err EOF \<or> errorsIs err NetErrClosed then debugRecord ''client disconnected'' [(''remote'', VString remote)]
      else if netError err = Some True then debugRecord ''client timeout'' [(''remote'', VString remote)]
      else \<lparr>recLevel = LevelError, recMessage = ''read request error'',
             recAttrs = [(''error'', VError err), (''remote'', VString remote)]\<rparr>)"

definition handlerFailed :: "goerror option \<Rightarrow> goerror + bytes \<Rightarrow> goerror option" where
  "handlerFailed ctx_err r = (case r of Inl err \<Rightarrow> Some err | Inr resp \<Rightarrow> ctx_err)"

definition answerLogs :: "request \<Rightarrow> goerror option \<Rightarrow> duration \<Rightarrow> goerror option \<Rightarrow> log_record list" where
  "answerLogs req failed dur write_err =
     (case failed of Some err \<Rightarrow> [logHandlerError req err (DownstreamException err) dur] | None \<Rightarrow> []) @
     (case write_err of
        Some err \<Rightarrow> [\<lparr>recLevel = LevelError,
          recMessage = (if failed \<noteq> None then ''write exception response error'' else ''write response error''),
          recAttrs = [(''error'', VError err)]\<rparr>]
      | None \<Rightarrow> [])"

fun handleConnLogs ::
  "duration \<Rightarrow> 's handler \<Rightarrow> string \<Rightarrow> (nat \<Rightarrow> duration) \<Rightarrow> nat \<Rightarrow> iteration list \<Rightarrow> conn_in \<Rightarrow> 's \<Rightarrow> log_record list" where
  "handleConnLogs rt handle remote dur i [] c s = []"
| "handleConnLogs rt handle remote dur i (it # its) c s =
     (if serverDone it then []
      else (case readRequest c of
              Panics \<Rightarrow> []
            | Returns (Inl err, c') \<Rightarrow> [readErrorRecord remote err]
            | Returns (Inr req, c') \<Rightarrow>
                (case handle i (requestContext rt (startedAt it)) req s of
                   None \<Rightarrow> []
                 | Some Panics \<Rightarrow> []
                 | Some (Returns (r, s')) \<Rightarrow>
                     answerLogs req (handlerFailed (requestErr rt it) r) (dur i) (writeErr it) @
                     (if writeErr it \<noteq> None then [] else handleConnLogs rt handle remote dur (Suc i) its c' s'))))"

definition serveConnLogs :: "duration \<Rightarrow> 's handler \<Rightarrow> string \<Rightarrow> (nat \<Rightarrow> duration) \<Rightarrow> iteration list \<Rightarrow> conn_in \<Rightarrow> 's \<Rightarrow> log_record list" where
  "serveConnLogs rt handle remote dur its c s =
     debugRecord ''client connected'' [(''remote'', VString remote)] # handleConnLogs rt handle remote dur 0 its c s"

subsection \<open>The proxy\<close>

definition logCoalescedCompletion :: "request \<Rightarrow> coalesceResult \<Rightarrow> log_record" where
  "logCoalescedCompletion req result =
     \<lparr>recLevel = LevelDebug, recMessage = ''coalesced request completed'',
      recAttrs = requestAttrs req @
        [(''write'', VBool False), (''attempt'', VInt 0), (''attempts'', VInt 0),
         (''queue_duration'', VDuration (WaitDuration result)), (''attempt_duration'', VDuration 0),
         (''reconnect_duration'', VDuration 0), (''total_duration'', VDuration (WaitDuration result)),
         (''error_kind'', VString ''''), (''will_retry'', VBool False), (''coalesced'', VBool True),
         (''coalesced_waited'', VBool True), (''coalesced_wait_duration'', VDuration (WaitDuration result))]\<rparr>"

definition logCoalescedFailure :: "request \<Rightarrow> coalesceResult \<Rightarrow> goerror \<Rightarrow> bool \<Rightarrow> log_record" where
  "logCoalescedFailure req result err staleFallbackSelected =
     \<lparr>recLevel = LevelDebug, recMessage = ''coalesced request failed'',
      recAttrs = requestAttrs req @
        [(''write'', VBool False), (''attempt'', VInt 0), (''attempts'', VInt 0),
         (''queue_duration'', VDuration (WaitDuration result)), (''attempt_duration'', VDuration 0),
         (''reconnect_duration'', VDuration 0), (''total_duration'', VDuration (WaitDuration result)),
         (''error_kind'', VKind (ErrorKindOf (Some err))), (''will_retry'', VBool False),
         (''coalesced'', VBool True), (''coalesced_waited'', VBool True),
         (''coalesced_wait_duration'', VDuration (WaitDuration result)),
         (''stale_fallback_selected'', VBool staleFallbackSelected), (''error'', VError err)] @
        (if \<not> staleFallbackSelected then [(''downstream_exception'', hexByte (DownstreamException err))] else [])\<rparr>"

definition logCoalescingWait :: "request \<Rightarrow> coalesceResult \<Rightarrow> goerror option \<Rightarrow> log_record" where
  "logCoalescingWait req result err =
     \<lparr>recLevel = LevelDebug, recMessage = ''coalescing wait ended before replacement fetch'',
      recAttrs = requestAttrs req @
        [(''write'', VBool False), (''coalesced'', VBool False), (''coalesced_waited'', VBool True),
         (''coalesced_wait_duration'', VDuration (WaitDuration result))] @
        (case err of
           Some e \<Rightarrow> [(''error_kind'', VKind (ErrorKindOf (Some e))), (''error'', VError e)]
         | None \<Rightarrow> [])\<rparr>"

definition logStaleFallback :: "request \<Rightarrow> coalesceResult \<Rightarrow> goerror \<Rightarrow> log_record" where
  "logStaleFallback req result err =
     \<lparr>recLevel = LevelWarn, recMessage = ''stale fallback selected'',
      recAttrs = requestAttrs req @
        [(''write'', VBool False), (''coalesced'', VBool (Coalesced result)),
         (''coalesced_waited'', VBool (Waited result)),
         (''coalesced_wait_duration'', VDuration (WaitDuration result)),
         (''stale_fallback_selected'', VBool True), (''error_kind'', VKind (ErrorKindOf (Some err))),
         (''error'', VError err)]\<rparr>"

text \<open>The record of a failed fetch: the coalesced failure, the ended wait, or none.\<close>

definition logFetchFailed :: "request \<Rightarrow> coalesceResult \<Rightarrow> goerror \<Rightarrow> bool \<Rightarrow> log_record list" where
  "logFetchFailed req coalesced err stale =
     (if Coalesced coalesced then [logCoalescedFailure req coalesced err stale]
      else if Waited coalesced then [logCoalescingWait req coalesced (Some err)]
      else [])"

text \<open>
  The records of \<^verbatim>\<open>handleRead\<close>, along the branches of \<open>handleRead\<close>. While the
  request still waits it has logged the cache miss only.
\<close>

definition handleReadLogs :: "'u executor \<Rightarrow> 'u seen \<Rightarrow> request \<Rightarrow> 'u proxy \<Rightarrow> log_record list" where
  "handleReadLogs exec o1 req p =
     (case GetRange (hitClock o1) (pcache p) (SlaveID req) (FunctionCode req) (Address req) (Quantity req) of
        Some vals \<Rightarrow> [debugRecord ''cache hit'' (requestAttrs req)]
      | None \<Rightarrow> debugRecord ''cache miss'' (requestAttrs req) #
          (case CoalesceWithStatus (iterations o1) False 0
                  (fetchAndStore exec o1 req (writeGeneration p)) (Returns p) of
             None \<Rightarrow> []
           | Some ((r, coalesced), Panics) \<Rightarrow> []
           | Some ((Inr data, coalesced), Returns p') \<Rightarrow>
               if Coalesced coalesced then [logCoalescedCompletion req coalesced]
               else if Waited coalesced then [logCoalescingWait req coalesced None]
               else []
           | Some ((Inl err, coalesced), Returns p') \<Rightarrow>
               if CacheServeStale (pcfg p') \<and> ErrorKindOf (Some err) \<noteq> ErrorProtocolException \<and>
                  requestContextActive (ctxErr o1) (ctxDeadline o1) (nowAfter o1)
               then
                 (case GetRangeStale (pcache (meanwhile o1 p')) (SlaveID req) (FunctionCode req)
                         (Address req) (Quantity req) of
                    Some staleValues \<Rightarrow> logFetchFailed req coalesced err True @ [logStaleFallback req coalesced err]
                  | None \<Rightarrow> logFetchFailed req coalesced err False)
               else logFetchFailed req coalesced err False))"

definition handleWriteLogs :: "request \<Rightarrow> 'u proxy \<Rightarrow> log_record list" where
  "handleWriteLogs req p = (case ReadOnly (pcfg p) of
     ReadOnlyOn \<Rightarrow> [debugRecord ''write ignored (readonly mode)'' (take 3 (requestAttrs req))]
   | ReadOnlyDeny \<Rightarrow> [debugRecord ''write denied (readonly mode)'' (take 3 (requestAttrs req))]
   | ReadOnlyOff \<Rightarrow> [])"

definition HandleRequestLogs :: "'u executor \<Rightarrow> 'u seen \<Rightarrow> request option \<Rightarrow> 'u proxy \<Rightarrow> log_record list" where
  "HandleRequestLogs exec o1 reqp p = (case ValidateRequest reqp of
     Some err \<Rightarrow> []
   | None \<Rightarrow>
       (case reqp of
          None \<Rightarrow> []
        | Some req \<Rightarrow>
            if IsWriteFunction (FunctionCode req) then handleWriteLogs req p
            else if IsReadFunction (FunctionCode req) then handleReadLogs exec o1 req p
            else [debugRecord ''forwarding function code'' (take 2 (requestAttrs req))]))"

subsection \<open>Lemmas\<close>

lemmas log_defs = logFailure_def logSuccess_def logHandlerError_def logCoalescedCompletion_def
  logCoalescedFailure_def logCoalescingWait_def logStaleFallback_def debugRecord_def requestAttrs_def hexByte_def

text \<open>No value of the record is an error.\<close>

definition hides_error :: "log_record \<Rightarrow> bool" where
  "hides_error r \<longleftrightarrow> (\<forall>v \<in> set (map snd (recAttrs r)). \<forall>e. v \<noteq> VError e)"

lemma hides_error_client:
  assumes "IsWriteFunction (FunctionCode req)"
  shows "hides_error (logFailure req n t err retry)" and "hides_error (logSuccess req n t)"
  using assms by (auto simp: hides_error_def log_defs Let_def split: prod.splits)

lemma hides_error_handler:
  assumes "IsWriteFunction (FunctionCode req)"
  shows "hides_error (logHandlerError req err code dur)"
  using assms by (auto simp: hides_error_def log_defs Let_def split: prod.splits option.splits if_splits)

lemma hides_error_proxy:
  "r \<in> set (handleWriteLogs req p) \<Longrightarrow> hides_error r"
  by (auto simp: handleWriteLogs_def hides_error_def log_defs split: readOnlyMode.splits)

lemma errorsAs_full_RequestError:
  "errorsAs asRequestErrorFull (RequestError k c n t e) = Some (c, n, t)"
  by (simp add: errorsAs_def)

lemma errorsAs_coalescing_markers:
  "errorsAs asCoalescing (coalescingError b d e) = Some (b, d)"
  "errorsAs asRequestErrorFull (coalescingError b d e) = errorsAs asRequestErrorFull e"
  by (simp_all add: errorsAs_def asCoalescing_def)

lemma logHandlerError_values:
  assumes "errorsAs asCoalescing e = Some (b, w)" and "errorsAs asRequestErrorFull e = Some (c, n, t)"
  shows "logValue (logHandlerError req e code dur) ''attempts'' = Some (VInt (if b then 0 else n))"
    and "logValue (logHandlerError req e code dur) ''queue_duration'' = Some (VDuration (if b then w else w + tqueue t))"
    and "logValue (logHandlerError req e code dur) ''attempt_duration'' = Some (VDuration (if b then 0 else tattempt t))"
  using assms by (simp_all add: logHandlerError_def requestAttrs_def Let_def)

lemma logHandlerError_code: "logValue (logHandlerError req e code dur) ''downstream_exception'' = Some (hexByte code)"
  by (cases "errorsAs asCoalescing e"; cases "errorsAs asRequestErrorFull e")
    (simp_all add: logHandlerError_def requestAttrs_def Let_def split_beta)

lemma NewLogger_warns: "ToUpper lvl \<noteq> ''ERROR'' \<Longrightarrow> NewLogger lvl \<le> LevelWarn"
  by (simp add: NewLogger_def less_eq_level_def)

lemma logStaleFallback_fields:
  "recMessage (logStaleFallback req cr err) = ''stale fallback selected''"
  "recLevel (logStaleFallback req cr err) = LevelWarn"
  "logValue (logStaleFallback req cr err) ''error'' = Some (VError err)"
  by (simp_all add: logStaleFallback_def requestAttrs_def)

lemma logStaleFallback_emitted:
  assumes "ToUpper lvl \<noteq> ''ERROR''" and "logStaleFallback req cr err \<in> set logs"
  shows "logStaleFallback req cr err \<in> set (emitted (NewLogger lvl) logs)"
  using assms NewLogger_warns by (simp add: emitted_def logStaleFallback_fields)

lemma read_answer_cases:
  assumes "handleRead exec o1 req p = Some (Returns (Inr b, p'))"
    and "GetRange (hitClock o1) (pcache p) (SlaveID req) (FunctionCode req) (Address req) (Quantity req) = None"
  shows "(\<exists>cr q. CoalesceWithStatus (iterations o1) False 0 (fetchAndStore exec o1 req (writeGeneration p)) (Returns p) =
       Some ((Inr b, cr), Returns q)) \<or>
    (\<exists>cr q err. CoalesceWithStatus (iterations o1) False 0 (fetchAndStore exec o1 req (writeGeneration p)) (Returns p) =
       Some ((Inl err, cr), Returns q) \<and> logStaleFallback req cr err \<in> set (handleReadLogs exec o1 req p))"
  using assms
  by (auto simp: handleRead_def handleReadLogs_def Let_def
      split: option.splits prod.splits sum.splits go.splits if_splits)

text \<open>
  Every failure record of a connection is about a request of that connection: its client was sent
  the exception the record names, unless writing that answer ended the connection.
\<close>

definition failure_messages :: "string set" where
  "failure_messages = {''request failed'', ''request canceled''}"

lemma handleConn_served_mono:
  "set d \<subseteq> set (served (handleConn rt handle i its c s d out))"
proof (induction its arbitrary: i c s d out)
  case (Cons it its)
  have "set d \<subseteq> set (served (handleConn rt handle j its c' s' (d @ x) o1))" for j c' s' x o1
    using Cons.IH [of "d @ x" j c' s' o1] by auto
  then show ?case by (auto simp: Let_def split: go.splits sum.splits option.splits)
qed simp

lemma answerLogs_failure:
  assumes "rec \<in> set (answerLogs req failed dur write_err)" and "recMessage rec \<in> failure_messages"
  shows "\<exists>err. failed = Some err \<and> rec = logHandlerError req err (DownstreamException err) dur"
  using assms by (auto simp: answerLogs_def failure_messages_def split: option.splits if_splits)

lemma handlerFailed_pdu:
  "handlerFailed ctx_err r = Some err \<Longrightarrow> responsePDU req ctx_err r = buildExceptionResponse req (DownstreamException err)"
  by (auto simp: handlerFailed_def responsePDU_def split: sum.splits)

lemma readErrorRecord_message: "recMessage (readErrorRecord remote err) \<notin> failure_messages"
  by (simp add: readErrorRecord_def failure_messages_def debugRecord_def)

lemma failure_records_answered:
  assumes "rec \<in> set (handleConnLogs rt handle remote dur i its c s)" and "recMessage rec \<in> failure_messages"
  shows "\<exists>req err t. rec = logHandlerError req err (DownstreamException err) t \<and>
    ((req, buildExceptionResponse req (DownstreamException err)) \<in> set (served (handleConn rt handle i its c s d out)) \<or>
     (\<exists>w. ended (handleConn rt handle i its c s d out) = WriteFailed w))"
  using assms(1)
proof (induction its arbitrary: i c s d out)
  case (Cons it its)
  obtain x c' where rd: "readRequest c = Returns (x, c')" and nd: "\<not> serverDone it"
    using Cons.prems readRequest_no_panic [of c] by (cases "readRequest c") (auto split: if_splits)
  obtain req where x: "x = Inr req"
    using Cons.prems rd nd readErrorRecord_message assms(2) by (cases x) auto
  obtain r s' where h: "handle i (requestContext rt (startedAt it)) req s = Some (Returns (r, s'))"
    using Cons.prems rd nd x by (cases "handle i (requestContext rt (startedAt it)) req s" rule: option.exhaust; cases "the (handle i (requestContext rt (startedAt it)) req s)") auto
  let ?pdu = "responsePDU req (requestErr rt it) r"
  consider (here) "rec \<in> set (answerLogs req (handlerFailed (requestErr rt it) r) (dur i) (writeErr it))"
    | (later) "writeErr it = None" "rec \<in> set (handleConnLogs rt handle remote dur (Suc i) its c' s')"
    using Cons.prems rd nd x h by (auto split: if_splits)
  then show ?case
  proof cases
    case here
    from answerLogs_failure [OF this assms(2)] obtain err where
      err: "handlerFailed (requestErr rt it) r = Some err" "rec = logHandlerError req err (DownstreamException err) (dur i)"
      by blast
    show ?thesis
    proof (cases "writeErr it")
      case None
      have "(req, ?pdu) \<in> set (served (handleConn rt handle (Suc i) its c' s' (d @ [(req, ?pdu)])
          (out @ round_acts it (req, ?pdu))))"
        by (rule subsetD [OF handleConn_served_mono]) simp
      then show ?thesis using err rd nd x h None handlerFailed_pdu [OF err(1)]
        by (auto simp: Let_def round_acts_def response_frame_def)
    qed (use err rd nd x h in \<open>auto simp: Let_def\<close>)
  next
    case later
    then show ?thesis
      using Cons.IH [OF later(2), of "d @ [(req, ?pdu)]" "out @ round_acts it (req, ?pdu)"]
        rd nd x h by (simp add: Let_def round_acts_def response_frame_def)
  qed
qed simp

subsection \<open>Properties\<close>

text \<open>
  No log record of a write request carries an error value, whose text could repeat the values
  being written: neither the records of the upstream client, nor the record of the failed handler
  call, nor the records of the proxy.
\<close>

lemma write_logs_carry_no_error:
  assumes "IsWriteFunction (FunctionCode req)"
  shows "hides_error (logFailure req attempts timing err willRetry) \<and>
    hides_error (logSuccess req attempts timing) \<and>
    hides_error (logHandlerError req err code dur) \<and>
    (\<forall>r \<in> set (HandleRequestLogs exec o1 (Some req) p). hides_error r)"
  using assms hides_error_client hides_error_handler hides_error_proxy [of _ req p]
  by (auto simp: HandleRequestLogs_def split: option.splits)

text \<open>
  The record of a failed request attributes upstream work to the request that caused it. A
  failure of the request's own upstream call carries the attempts and durations of that call, with
  the time spent waiting for another request added to the queue time; a request that only followed
  another one's fetch is logged with no attempt and no upstream time of its own. The exception code
  in the record is the one the client is sent.
\<close>

lemma handler_log_attribution:
  "logValue (logHandlerError req (attributedCoalescingError (requestError err n t) False w) code dur)
     ''attempts'' = Some (VInt n) \<and>
   logValue (logHandlerError req (attributedCoalescingError (requestError err n t) False w) code dur)
     ''queue_duration'' = Some (VDuration (w + tqueue t)) \<and>
   logValue (logHandlerError req (attributedCoalescingError (requestError err n t) True w) code dur)
     ''attempts'' = Some (VInt 0) \<and>
   logValue (logHandlerError req (attributedCoalescingError (requestError err n t) True w) code dur)
     ''attempt_duration'' = Some (VDuration 0) \<and>
   (\<exists>code. responsePDU req ctx_err (Inl e) = [FunctionCode req OR 0x80, code] \<and>
     logValue (logHandlerError req e (DownstreamException e) dur) ''downstream_exception'' = Some (hexByte code))"
proof -
  obtain k c where e: "requestError err n t = RequestError k c n t err"
    by (cases "classifyError (Some err)") (simp add: requestError_def)
  have "errorsAs asRequestErrorFull (attributedCoalescingError (requestError err n t) b w) = Some (c, n, t)"
    "errorsAs asCoalescing (attributedCoalescingError (requestError err n t) b w) = Some (b, w)" for b
    by (simp_all add: e attributedCoalescingError_def errorsAs_coalescing_markers errorsAs_full_RequestError)
  from logHandlerError_values [OF this(2,1)] show ?thesis
    by (simp add: logHandlerError_code responsePDU_def buildExceptionResponse_def)
qed

text \<open>
  C40: A read is never answered with stale data silently. Whenever the handler answers a read with
  data, the data is a cache hit, or the fetch succeeded, or the logger writes a last record of the
  request that carries the error of the fetch: at every log level but ERROR, and so at the default level.
\<close>

theorem stale_answers_logged:
  assumes "handleRead exec o1 req p = Some (Returns (Inr b, p'))" and "ToUpper lvl \<noteq> ''ERROR''"
  shows "GetRange (hitClock o1) (pcache p) (SlaveID req) (FunctionCode req) (Address req) (Quantity req) \<noteq> None \<or>
    (\<exists>cr q. CoalesceWithStatus (iterations o1) False 0 (fetchAndStore exec o1 req (writeGeneration p)) (Returns p) =
       Some ((Inr b, cr), Returns q)) \<or>
    (\<exists>cr q err r. CoalesceWithStatus (iterations o1) False 0 (fetchAndStore exec o1 req (writeGeneration p)) (Returns p) =
       Some ((Inl err, cr), Returns q) \<and>
       r \<in> set (emitted (NewLogger lvl) (handleReadLogs exec o1 req p)) \<and>
       recMessage r = ''stale fallback selected'' \<and> logValue r ''error'' = Some (VError err))"
proof (cases "GetRange (hitClock o1) (pcache p) (SlaveID req) (FunctionCode req) (Address req) (Quantity req)")
  case None
  from read_answer_cases [OF assms(1) None] show ?thesis
  proof
    assume "\<exists>cr q err. CoalesceWithStatus (iterations o1) False 0 (fetchAndStore exec o1 req (writeGeneration p)) (Returns p) =
        Some ((Inl err, cr), Returns q) \<and> logStaleFallback req cr err \<in> set (handleReadLogs exec o1 req p)"
    then show ?thesis using logStaleFallback_emitted [OF assms(2)] logStaleFallback_fields by blast
  qed blast
qed simp

theorem stale_answers_logged_witness:
  "\<exists>r \<in> set (emitted (NewLogger ''INFO'')
       (handleReadLogs (\<lambda>_ q. (Inl EOF, q)) (demo_seen 20000000000) demo_read (demo_cached ReadOnlyOn True))).
     logValue r ''error'' = Some (VError EOF)"
proof -
  let ?p = "demo_cached ReadOnlyOn True" and ?o = "demo_seen 20000000000" and ?E = "\<lambda>_ q. (Inl EOF, q)"
  have "cache_wf (pcache (meanwhile ?o ?p))" using demo_stale_run(6) demo_cached_wf by simp
  from handleRead_failed [OF demo_stale_run(1,2) this demo_requests(1,2)] demo_stale_run(3-6)
    demo_lookup(4) [of ReadOnlyOn True]
  obtain b p' where run: "handleRead ?E ?o demo_read ?p = Some (Returns (Inr b, p'))"
    by (fastforce simp: demo_read_def split: sum.splits)
  have "ToUpper ''INFO'' \<noteq> ''ERROR''" by code_simp
  from stale_answers_logged [OF run this] demo_stale_run(1,2) show ?thesis by auto
qed

end
