(* ===== verification/Health_Endpoint.thy ===== *)
theory Health_Endpoint
  imports Request_Logs
begin

text \<open>
  The health endpoint of \<^verbatim>\<open>internal/health/health.go\<close>, the health methods of the proxy
  in \<^verbatim>\<open>internal/proxy/proxy.go\<close> and the probe \<open>CheckHealth\<close>. Go's address syntax
  (\<^verbatim>\<open>net.SplitHostPort\<close>, \<^verbatim>\<open>net.JoinHostPort\<close>) is modelled; the HTTP
  exchange of the probe is an argument. The lemmas show that the two address functions are
  inverse, that the probe dials the address the server listens on, and that it succeeds exactly when the
  upstream client is healthy.
\<close>

subsection \<open>Addresses\<close>

fun indexOf :: "char \<Rightarrow> string \<Rightarrow> nat option" where
  "indexOf c [] = None"
| "indexOf c (x # xs) = (if x = c then Some 0 else map_option Suc (indexOf c xs))"

definition lastIndexOf :: "char \<Rightarrow> string \<Rightarrow> nat option" where
  "lastIndexOf c s = map_option (\<lambda>i. length s - 1 - i) (indexOf c (rev s))"

text \<open>\<^verbatim>\<open>net.AddrError\<close>, as its text.\<close>

definition addrErr :: "string \<Rightarrow> string \<Rightarrow> goerror" where
  "addrErr addr why = Plain (if addr \<noteq> [] then ''address '' @ addr @ '': '' @ why else why)"

text \<open>The checks after the host was cut out: no bracket from \<open>j\<close> and \<open>k\<close> on.\<close>

definition cutPort :: "string \<Rightarrow> nat \<Rightarrow> string \<Rightarrow> nat \<Rightarrow> nat \<Rightarrow> goerror + (string \<times> string)" where
  "cutPort hostport i host j k =
     (if indexOf (CHR ''['') (drop j hostport) \<noteq> None then Inl (addrErr hostport (''unexpected '' @ [CHR 0x27, CHR ''['', CHR 0x27] @ '' in address''))
      else if indexOf (CHR '']'') (drop k hostport) \<noteq> None then Inl (addrErr hostport (''unexpected '' @ [CHR 0x27, CHR '']'', CHR 0x27] @ '' in address''))
      else Inr (host, drop (i + 1) hostport))"

definition SplitHostPort :: "string \<Rightarrow> goerror + (string \<times> string)" where
  "SplitHostPort hostport = (case lastIndexOf (CHR '':'') hostport of
     None \<Rightarrow> Inl (addrErr hostport ''missing port in address'')
   | Some i \<Rightarrow>
       if hostport ! 0 = CHR ''['' then
         (case indexOf (CHR '']'') hostport of
            None \<Rightarrow> Inl (addrErr hostport (''missing '' @ [CHR 0x27, CHR '']'', CHR 0x27] @ '' in address''))
          | Some j \<Rightarrow>
              if j + 1 = length hostport then Inl (addrErr hostport ''missing port in address'')
              else if j + 1 = i then cutPort hostport i (take (j - 1) (drop 1 hostport)) 1 (j + 1)
              else if hostport ! (j + 1) = CHR '':'' then Inl (addrErr hostport ''too many colons in address'')
              else Inl (addrErr hostport ''missing port in address''))
       else if indexOf (CHR '':'') (take i hostport) \<noteq> None then Inl (addrErr hostport ''too many colons in address'')
       else cutPort hostport i (take i hostport) 0 0)"

definition JoinHostPort :: "string \<Rightarrow> string \<Rightarrow> string" where
  "JoinHostPort host port =
     (if indexOf (CHR '':'') host \<noteq> None then ''['' @ host @ '']:'' @ port else host @ '':'' @ port)"

subsection \<open>Health of the proxy\<close>

text \<open>
  A value behind one of the interfaces \<^verbatim>\<open>Checker\<close> and
  \<^verbatim>\<open>upstreamClient\<close>: what its method \<^verbatim>\<open>Healthy\<close> returns, and what the
  two optional methods return if it has them.
\<close>

record checker =
  chkHealthy :: "goerror option"
  chkHealthStatus :: "(string \<times> (string \<rightharpoonup> detail)) option"
  chkHealthReport :: "((string \<times> (string \<rightharpoonup> detail)) \<times> goerror option) option"

definition ProxyHealthStatus :: "checker \<Rightarrow> string \<times> (string \<rightharpoonup> detail)" where
  "ProxyHealthStatus client = (case chkHealthStatus client of None \<Rightarrow> (''ok'', Map.empty) | Some st \<Rightarrow> st)"

definition ProxyHealthReport :: "checker \<Rightarrow> (string \<times> (string \<rightharpoonup> detail)) \<times> goerror option" where
  "ProxyHealthReport client = (case chkHealthReport client of
     Some r \<Rightarrow> r
   | None \<Rightarrow> (ProxyHealthStatus client, chkHealthy client))"

text \<open>The client and the proxy as such values; \<open>now\<close> is the client's clock.\<close>

definition clientChecker :: "client \<Rightarrow> time \<Rightarrow> checker" where
  "clientChecker c now =
     \<lparr>chkHealthy = Healthy c,
      chkHealthStatus = Some (healthStatus (healthStatsLocked c now)),
      chkHealthReport = Some (HealthReport c now)\<rparr>"

definition proxyChecker :: "checker \<Rightarrow> checker" where
  "proxyChecker client =
     \<lparr>chkHealthy = chkHealthy client,
      chkHealthStatus = Some (ProxyHealthStatus client),
      chkHealthReport = Some (ProxyHealthReport client)\<rparr>"

subsection \<open>The endpoint\<close>

definition healthReport :: "checker \<Rightarrow> (string \<times> (string \<rightharpoonup> detail)) \<times> goerror option" where
  "healthReport chk = (case chkHealthReport chk of
     Some r \<Rightarrow> r
   | None \<Rightarrow>
       (case chkHealthStatus chk of
          Some st \<Rightarrow> (st, chkHealthy chk)
        | None \<Rightarrow> ((''ok'', Map.empty), chkHealthy chk)))"

text \<open>
  The text of an error. \<open>lib\<close> gives the texts of the errors of the standard and the Modbus
  library.
\<close>

fun kindText :: "error_kind \<Rightarrow> string" where
  "kindText KindNone = ''''"
| "kindText ErrorProtocolException = ''protocol_exception''"
| "kindText ErrorTransportTimeout = ''transport_timeout''"
| "kindText ErrorTransportClosed = ''transport_closed''"
| "kindText ErrorContextDeadline = ''context_deadline''"
| "kindText ErrorContextCanceled = ''context_canceled''"
| "kindText ErrorLocal = ''local_error''"

fun errorText :: "(goerror \<Rightarrow> string) \<Rightarrow> goerror \<Rightarrow> string" where
  "errorText lib (Plain s) = s"
| "errorText lib (Wrap s e) = s @ '': '' @ errorText lib e"
| "errorText lib (validationError c e) = errorText lib e"
| "errorText lib (upstreamCommunicationError e) = errorText lib e"
| "errorText lib (coalescingError b d e) = errorText lib e"
| "errorText lib (RequestError k c n t e) =
     (if c \<noteq> 0 then kindText k @ '' (exception 0x'' @ fmt_0X 2 (unat c) @ ''): '' @ errorText lib e
      else kindText k @ '': '' @ errorText lib e)"
| "errorText lib e = lib e"

record response =
  respStatus :: string
  respError :: string
  respDetails :: "string \<rightharpoonup> detail"

text \<open>
  The JSON object of a response, field by field: empty fields are left out as their tags say.
\<close>

datatype json = JText string | JDetails "string \<rightharpoonup> detail"

definition responseJSON :: "response \<Rightarrow> (string \<times> json) list" where
  "responseJSON r =
     [(''status'', JText (respStatus r))] @
     (if respError r \<noteq> [] then [(''error'', JText (respError r))] else []) @
     (if respDetails r \<noteq> Map.empty then [(''details'', JDetails (respDetails r))] else [])"

text \<open>
  What the endpoint sends: the status code, the content type and the JSON object; no object if the
  encoder fails with \<open>encErr\<close>, which is logged.
\<close>

record http_reply =
  contentType :: string
  statusCode :: nat
  jsonBody :: "(string \<times> json) list option"

definition StatusOK :: nat where "StatusOK = 200"
definition StatusServiceUnavailable :: nat where "StatusServiceUnavailable = 503"

definition sendJSON :: "goerror option \<Rightarrow> nat \<Rightarrow> response \<Rightarrow> http_reply \<times> log_record list" where
  "sendJSON encErr code resp = (case encErr of
     None \<Rightarrow> (\<lparr>contentType = ''application/json'', statusCode = code, jsonBody = Some (responseJSON resp)\<rparr>, [])
   | Some e \<Rightarrow>
       (\<lparr>contentType = ''application/json'', statusCode = code, jsonBody = None\<rparr>,
        [\<lparr>recLevel = LevelError, recMessage = ''failed to encode health response'',
          recAttrs = [(''error'', VError e)]\<rparr>]))"

definition handleHealth :: "(goerror \<Rightarrow> string) \<Rightarrow> goerror option \<Rightarrow> checker \<Rightarrow> http_reply \<times> log_record list" where
  "handleHealth lib encErr chk = (case healthReport chk of
     ((status, details), Some healthErr) \<Rightarrow>
       sendJSON encErr StatusServiceUnavailable
         \<lparr>respStatus = ''unhealthy'', respError = errorText lib healthErr, respDetails = details\<rparr>
   | ((status, details), None) \<Rightarrow>
       sendJSON encErr StatusOK \<lparr>respStatus = status, respError = '''', respDetails = details\<rparr>)"

text \<open>
  The server: its address, its header timeout, and the mux that knows one path. \<open>muxServe\<close> is what
  a request for \<open>path\<close> gets; the mux itself answers unknown paths.
\<close>

record health_server =
  hsAddr :: string
  hsReadHeaderTimeout :: duration
  hsPaths :: "string list"

definition NewHealthServer :: "string \<Rightarrow> health_server" where
  "NewHealthServer addr = \<lparr>hsAddr = addr, hsReadHeaderTimeout = 5 * second, hsPaths = [''/health'']\<rparr>"

definition muxServe :: "(goerror \<Rightarrow> string) \<Rightarrow> goerror option \<Rightarrow> checker \<Rightarrow> health_server \<Rightarrow> string \<Rightarrow> http_reply \<times> log_record list" where
  "muxServe lib encErr chk hs path =
     (if path \<in> set (hsPaths hs) then handleHealth lib encErr chk
      else (\<lparr>contentType = ''text/plain; charset=utf-8'', statusCode = 404, jsonBody = None\<rparr>, []))"

definition listeningRecord :: "string \<Rightarrow> log_record" where
  "listeningRecord addr =
     \<lparr>recLevel = LevelInfo, recMessage = ''health server listening'', recAttrs = [(''addr'', VString addr)]\<rparr>"

text \<open>\<open>bindErr\<close> is the error of \<^verbatim>\<open>net.Listen\<close>, \<open>bound_addr\<close> the listener's address.\<close>

definition ListenHealth :: "goerror option \<Rightarrow> string \<Rightarrow> (goerror + string) \<times> log_record list" where
  "ListenHealth bindErr bound_addr = (case bindErr of
     Some err \<Rightarrow> (Inl err, [])
   | None \<Rightarrow> (Inr bound_addr, [listeningRecord bound_addr]))"

text \<open>The end of serving: \<open>err\<close> is what the HTTP server returned, a closed server is no error.\<close>

definition ErrServerClosed :: goerror where
  "ErrServerClosed = Plain ''http: Server closed''"

definition ServeHealth :: "goerror option \<Rightarrow> goerror option" where
  "ServeHealth err = (if err = Some ErrServerClosed then None else err)"

definition ListenAndServeHealth :: "health_server \<Rightarrow> goerror option \<Rightarrow> goerror option \<times> log_record list" where
  "ListenAndServeHealth hs err = (ServeHealth err, [listeningRecord (hsAddr hs)])"

subsection \<open>The probe\<close>

text \<open>
  \<open>get\<close> performs the GET request: an error, or the status code. \<open>quote\<close> is the quoting of
  \<^verbatim>\<open>%q\<close>.
\<close>

definition probeHost :: "string \<Rightarrow> string" where
  "probeHost host = (if host = '''' \<or> host = ''0.0.0.0'' \<or> host = ''::'' then ''localhost'' else host)"

definition probeURL :: "string \<Rightarrow> string \<Rightarrow> string" where
  "probeURL host port = ''http://'' @ JoinHostPort (probeHost host) port @ ''/health''"

definition CheckHealth :: "(string \<Rightarrow> string) \<Rightarrow> (string \<Rightarrow> goerror + nat) \<Rightarrow> string \<Rightarrow> goerror option" where
  "CheckHealth quote get addr = (case SplitHostPort addr of
     Inl err \<Rightarrow> Some (Wrap (''invalid address '' @ quote addr) err)
   | Inr (host, port) \<Rightarrow>
       (case get (probeURL host port) of
          Inl err \<Rightarrow> Some (Wrap ''health check request failed'' err)
        | Inr code \<Rightarrow>
            if code \<noteq> StatusOK then Some (Plain (''health check returned status '' @ fmt_d code)) else None))"

subsection \<open>Lemmas\<close>

lemma indexOf_None_iff [simp]: "indexOf c xs = None \<longleftrightarrow> c \<notin> set xs"
  by (induction xs) auto

lemma indexOf_append [simp]: "c \<notin> set xs \<Longrightarrow> indexOf c (xs @ c # ys) = Some (length xs)"
  by (induction xs) auto

lemma lastIndexOf_append [simp]: "c \<notin> set ys \<Longrightarrow> lastIndexOf c (xs @ c # ys) = Some (length xs)"
  by (simp add: lastIndexOf_def)

text \<open>What a host and a port look like in an address.\<close>

definition host_port :: "string \<Rightarrow> string \<Rightarrow> bool" where
  "host_port host port \<longleftrightarrow> CHR ''['' \<notin> set host \<union> set port \<and> CHR '']'' \<notin> set host \<union> set port \<and> CHR '':'' \<notin> set port"

lemma Split_Join_plain:
  assumes "host_port host port" and "CHR '':'' \<notin> set host"
  shows "SplitHostPort (host @ CHR '':'' # port) = Inr (host, port)"
proof -
  have "(host @ CHR '':'' # port) ! 0 \<noteq> CHR ''[''"
    using assms(1) by (cases host) (auto simp: host_port_def)
  then show ?thesis using assms
    by (simp add: SplitHostPort_def cutPort_def host_port_def)
qed

lemma Split_Join_bracket:
  assumes "host_port host port"
  shows "SplitHostPort (CHR ''['' # host @ CHR '']'' # CHR '':'' # port) = Inr (host, port)"
proof -
  let ?a = "CHR ''['' # host @ CHR '']'' # CHR '':'' # port"
  have a: "?a = (CHR ''['' # host @ [CHR '']'']) @ CHR '':'' # port" by simp
  have i: "lastIndexOf (CHR '':'') ?a = Some (length host + 2)"
    unfolding a using assms by (subst lastIndexOf_append) (auto simp: host_port_def)
  have j: "indexOf (CHR '']'') ?a = Some (length host + 1)"
    using assms by (simp add: host_port_def)
  show ?thesis using assms
    by (simp add: SplitHostPort_def i j cutPort_def host_port_def)
qed

lemma Split_Join:
  assumes "host_port host port"
  shows "SplitHostPort (JoinHostPort host port) = Inr (host, port)"
  using Split_Join_plain [OF assms] Split_Join_bracket [OF assms] by (auto simp: JoinHostPort_def)

text \<open>The status code is decided by the report's error alone.\<close>

lemma handleHealth_code:
  "statusCode (fst (handleHealth lib encErr chk)) =
     (if snd (healthReport chk) = None then StatusOK else StatusServiceUnavailable)"
  by (auto simp: handleHealth_def sendJSON_def split: prod.split option.split)

lemma proxied_report: "healthReport (proxyChecker (clientChecker c now)) = HealthReport c now"
  by (simp add: healthReport_def proxyChecker_def clientChecker_def ProxyHealthReport_def)

lemma proxied_code:
  "statusCode (fst (handleHealth lib encErr (proxyChecker (clientChecker c now)))) =
     (if healthyLocked c = None then StatusOK else StatusServiceUnavailable)"
  by (simp add: handleHealth_code proxied_report HealthReport_def)

lemma CheckHealth_code:
  assumes "host_port host port"
  shows "CheckHealth quote get (JoinHostPort host port) = None \<longleftrightarrow> get (probeURL host port) = Inr StatusOK"
  by (auto simp: CheckHealth_def Split_Join [OF assms] split: sum.split)

lemma StatusOK_neq [simp]: "StatusServiceUnavailable \<noteq> StatusOK"
  by (simp add: StatusOK_def StatusServiceUnavailable_def)

text \<open>The fields of the body.\<close>

lemma responseJSON_fields:
  "map_of (responseJSON r) ''status'' = Some (JText (respStatus r))"
  "respError r \<noteq> [] \<Longrightarrow> map_of (responseJSON r) ''error'' = Some (JText (respError r))"
  "respError r = [] \<Longrightarrow> map_of (responseJSON r) ''error'' = None"
  by (auto simp: responseJSON_def)

lemma proxied_body:
  assumes "jsonBody (fst (handleHealth lib encErr (proxyChecker (clientChecker c now)))) = Some body"
  shows "healthyLocked c = Some err \<Longrightarrow> errorText lib err \<noteq> [] \<Longrightarrow>
      map_of body ''status'' = Some (JText ''unhealthy'') \<and> map_of body ''error'' = Some (JText (errorText lib err))"
    and "healthyLocked c = None \<Longrightarrow>
      map_of body ''status'' = Some (JText (fst (healthStatus (healthStatsLocked c now)))) \<and> map_of body ''error'' = None"
  using assms
  by (auto simp: handleHealth_def sendJSON_def proxied_report HealthReport_def responseJSON_fields
      split: prod.splits option.splits)

lemma errorText_RequestError: "k \<noteq> KindNone \<Longrightarrow> errorText lib (RequestError k c n t e) \<noteq> []"
  by (cases k) auto

text \<open>What a request leaves for the health check.\<close>

lemma health_of_result:
  assumes "valid_request req" and "connected (wclient w) \<longleftrightarrow> session (wclient w) \<noteq> None"
    and "ctx_ok e" and "dial_ok e" and "run_state (Execute e (Some req)) w = (Some r, w')"
  shows "r = Inr b \<Longrightarrow> healthyLocked (wclient w') = None"
    and "r = Inl err \<Longrightarrow> ErrorKindOf (Some err) = ErrorProtocolException \<Longrightarrow> healthyLocked (wclient w') = None"
    and "r = Inl err \<Longrightarrow> ErrorKindOf (Some err) \<in> {ErrorTransportTimeout, ErrorTransportClosed, ErrorLocal} \<Longrightarrow>
      healthyLocked (wclient w') = Some err \<and> errorText lib err \<noteq> []"
proof -
  note x = Execute_result [OF assms]
  have req_err: "ErrorKindOf (Some (requestError y n t)) = fst (classifyError (Some y))" for y n t
    by (simp add: requestError_def case_prod_beta ErrorKindOf_def)
  have texts: "errorText lib (requestError y n t) \<noteq> []" for y n t
    using errorText_RequestError classifyError_Some_kind [of y] by (simp add: requestError_def case_prod_beta)
  have ctx: "fst (classifyError (Some y)) \<in> {ErrorContextDeadline, ErrorContextCanceled}" if "is_ctx y" for y
    using that by (auto simp: is_ctx_def)
  show "r = Inr b \<Longrightarrow> healthyLocked (wclient w') = None"
    using x by (auto simp: result_ok_def healthyLocked_def)
  show "r = Inl err \<Longrightarrow> ErrorKindOf (Some err) = ErrorProtocolException \<Longrightarrow> healthyLocked (wclient w') = None"
    using x ctx by (fastforce simp: result_ok_def healthyLocked_def req_err)
  show "r = Inl err \<Longrightarrow> ErrorKindOf (Some err) \<in> {ErrorTransportTimeout, ErrorTransportClosed, ErrorLocal} \<Longrightarrow>
      healthyLocked (wclient w') = Some err \<and> errorText lib err \<noteq> []"
    using x ctx texts by (fastforce simp: result_ok_def healthyLocked_def req_err)
qed

subsection \<open>Properties\<close>

text \<open>
  Host and port survive the way into an address and back, also for IPv6 hosts with colons:
  what the standard library joins it splits into the same parts.
\<close>

lemma address_roundtrip:
  assumes "CHR ''['' \<notin> set host \<union> set port" and "CHR '']'' \<notin> set host \<union> set port" and "CHR '':'' \<notin> set port"
  shows "SplitHostPort (JoinHostPort host port) = Inr (host, port)"
  using Split_Join assms by (simp add: host_port_def)

text \<open>
  C30: The probe tells whether the upstream is usable. When the GET request the probe makes is
  answered by the endpoint of a running proxy, the probe succeeds exactly when the upstream client
  has a connection and no failure is pending, also when the address it was given is a wildcard
  listen address. A success status of the endpoint is what the probe needs, and the endpoint's
  status is the client's.
\<close>

theorem probe_reports_client_health:
  assumes "host_port host port"
    and "get (''http://'' @ JoinHostPort (if host \<in> {'''', ''0.0.0.0'', ''::''} then ''localhost'' else host) port @ ''/health'')
      = Inr (statusCode (fst (muxServe lib encErr (proxyChecker (clientChecker c now)) (NewHealthServer addr) ''/health'')))"
  shows "CheckHealth quote get (JoinHostPort host port) = None \<longleftrightarrow> lastErr c = None \<and> connected c"
proof -
  have "get (probeURL host port) = Inr (statusCode (fst (handleHealth lib encErr (proxyChecker (clientChecker c now)))))"
    using assms(2) by (simp add: probeURL_def probeHost_def insert_iff muxServe_def NewHealthServer_def)
  then show ?thesis
    by (simp add: CheckHealth_code [OF assms(1)] proxied_code healthyLocked_def split: option.split)
qed

theorem probe_reports_client_health_witness:
  "CheckHealth (\<lambda>s. s) (\<lambda>url. if url = ''http://localhost:8080/health''
       then Inr (statusCode (fst (muxServe (\<lambda>_. []) None (proxyChecker (clientChecker (NewClient ''dev:502'' 1 1 1) 7))
         (NewHealthServer ''[::]:8080'') ''/health'')))
       else Inl (OpError (Errno ECONNREFUSED))) (JoinHostPort ''::'' ''8080'') = None
   \<longleftrightarrow> lastErr (NewClient ''dev:502'' 1 1 1) = None \<and> connected (NewClient ''dev:502'' 1 1 1)"
  by (rule probe_reports_client_health) (simp_all add: host_port_def JoinHostPort_def)

text \<open>
  C21: The endpoint follows the requests. After a request that succeeded, or that the device
  answered with a Modbus exception, it answers 200; after a request whose upstream failed it answers 503
  with the text of that failure.
\<close>

theorem health_follows_requests:
  assumes "valid_request req" and "connected (wclient w) \<longleftrightarrow> session (wclient w) \<noteq> None"
    and "ctx_ok e" and "dial_ok e" and "run_state (Execute e (Some req)) w = (Some r, w')"
    and "handleHealth lib None (proxyChecker (clientChecker (wclient w') now)) = (reply, logs)"
  shows "case r of
      Inr b \<Rightarrow> statusCode reply = 200
    | Inl err \<Rightarrow>
        (ErrorKindOf (Some err) = ErrorProtocolException \<longrightarrow> statusCode reply = 200) \<and>
        (ErrorKindOf (Some err) \<in> {ErrorTransportTimeout, ErrorTransportClosed, ErrorLocal} \<longrightarrow>
           statusCode reply = 503 \<and>
           (\<exists>body. jsonBody reply = Some body \<and> map_of body ''error'' = Some (JText (errorText lib err))))"
proof -
  have code: "statusCode reply = (if healthyLocked (wclient w') = None then 200 else 503)"
    using proxied_code [of lib None "wclient w'" now] assms(6) by (simp add: StatusOK_def StatusServiceUnavailable_def)
  obtain body where body: "jsonBody reply = Some body"
    using assms(6) by (auto simp: handleHealth_def sendJSON_def split: prod.splits option.splits)
  note fields = proxied_body(1) [of lib None "wclient w'" now body] assms(6) body
  show ?thesis using health_of_result(1,2) [OF assms(1-5)] health_of_result(3) [OF assms(1-5), of _ lib] code body fields
    by (cases r) auto
qed

theorem health_follows_requests_witness:
  "\<exists>r w' reply. run_state (Execute demo_env (Some demo_request)) demo_world = (Some r, w') \<and>
     fst (handleHealth (\<lambda>_. []) None (proxyChecker (clientChecker (wclient w') 7))) = reply \<and>
     (isl r \<or> statusCode reply = 200)"
proof -
  obtain r w' where run: "run_state (Execute demo_env (Some demo_request)) demo_world = (Some r, w')"
    using demo_run by blast
  obtain reply logs where
    reply: "handleHealth (\<lambda>_. []) None (proxyChecker (clientChecker (wclient w') 7)) = (reply, logs)"
    by (cases "handleHealth (\<lambda>_. []) None (proxyChecker (clientChecker (wclient w') 7))") auto
  from health_follows_requests [OF demo_client_ok(3,4,1,2) run reply] run reply show ?thesis
    by (cases r) auto
qed

end
