(* ===== verification/Proxy_Server.thy ===== *)
theory Proxy_Server
  imports Proxy_Handler Server_Loop
begin

text \<open>
  The parts put together as \<^verbatim>\<open>proxy.New\<close> does it: the server's loop with the proxy as
  its handler, the proxy with the upstream client as its executor. The locale
  \<open>upstream_only\<close> is what the proxy may assume of an upstream client, \<open>request_handler\<close> (of
  \<open>Server_Loop\<close>) what the server may assume of the proxy; both are interpreted on the model.
\<close>

subsection \<open>The upstream interface\<close>

text \<open>
  A client does its work on its own state: the proxy's cache, write generation and configuration
  are not its business.
\<close>

locale upstream_only =
  fixes exec :: "'u executor"
  assumes exec_frame: "\<exists>u. snd (exec req p) = p\<lparr>upstream := u\<rparr>"
begin

lemma exec_keeps: "pcache (snd (exec req p)) = pcache p" "writeGeneration (snd (exec req p)) = writeGeneration p"
  "pcfg (snd (exec req p)) = pcfg p"
proof -
  obtain u where "snd (exec req p) = p\<lparr>upstream := u\<rparr>" using exec_frame by blast
  then show "pcache (snd (exec req p)) = pcache p" "writeGeneration (snd (exec req p)) = writeGeneration p"
    "pcfg (snd (exec req p)) = pcfg p" by simp_all
qed

text \<open>A write that runs alone takes two generations and drops its range once.\<close>

lemma write_alone:
  assumes "ReadOnly (pcfg p) = ReadOnlyOff"
  shows "writeGeneration (snd (handleWrite exec req p)) = writeGeneration p + 2"
    and "slot (pcache (snd (handleWrite exec req p))) s f x =
      (if s = SlaveID req \<and> IsReadFunction f \<and> in_range (Address req) (unat (Quantity req)) x
       then None else slot (pcache p) s f x)"
  using assms exec_keeps [of req "bumpAndInvalidate req p"]
  by (auto simp: handleWrite_def Let_def case_prod_beta bumpAndInvalidate_def slot_invalidateCache)

lemma request_keeps_wf:
  assumes "cache_wf (pcache p)" and "meanwhile o1 = (\<lambda>q. q)" and "HandleRequest exec o1 (Some req) p = Some out"
  shows "\<exists>r p'. out = Returns (r, p') \<and> cache_wf (pcache p')"
proof (cases "valid_request req")
  case True
  have wr: "cache_wf (pcache (snd (handleWrite exec req p)))"
    using assms(1) exec_keeps(1) [of req "bumpAndInvalidate req p"]
    by (auto simp: handleWrite_def Let_def case_prod_beta intro!: cache_wf_bump split: readOnlyMode.split)
  show ?thesis
  proof (cases "IsReadFunction (FunctionCode req)")
    case rd: True
    have "cache_wf (pcache (snd (exec req p)))" using assms(1) by (simp add: exec_keeps)
    from handleRead_wf [where exec = exec, OF assms(1) True rd this, of o1 out] show ?thesis
      using assms(2,3) HandleRequest_read [OF True rd, of exec o1 p] by auto
  next
    case False
    then show ?thesis
      using assms(1,3) wr exec_keeps(1) [of req p] HandleRequest_valid [OF True, of exec o1 p]
      by (auto simp: handlePassthrough_def split: if_splits) (metis prod.collapse)+
  qed
next
  case False
  then obtain err where "ValidateRequest (Some req) = Some err" using ValidateRequest_iff [of req] by blast
  then show ?thesis using assms(1,3) by (auto simp: HandleRequest_def)
qed

end

text \<open>
  \<open>p.client.Execute\<close> as the proxy calls it. \<open>Execute\<close> always returns a result on the requests
  the proxy passes on; the second equation covers the rest.
\<close>

definition clientExec :: "env \<Rightarrow> world executor" where
  "clientExec e req p = (case run_state (Execute e (Some req)) (upstream p) of
     (Some r, w) \<Rightarrow> (r, p\<lparr>upstream := w\<rparr>)
   | (None, w) \<Rightarrow> (Inl (Plain ''nil error''), p\<lparr>upstream := w\<rparr>))"

interpretation client_upstream: upstream_only "clientExec e" for e
proof
  fix req p
  show "\<exists>u. snd (clientExec e req p) = p\<lparr>upstream := u\<rparr>"
    by (auto simp: clientExec_def split: prod.split option.split)
qed

subsection \<open>The proxy as the server's handler\<close>

text \<open>
  The requests of one connection, one after the other; nothing else happens to the proxy between
  a failed fetch and the stale lookup. The deadline of the request's context is the one the server
  sets; the proxy passes the context on to the client.
\<close>

definition proxyHandler :: "(nat \<Rightarrow> env) \<Rightarrow> (nat \<Rightarrow> world seen) \<Rightarrow> world proxy handler" where
  "proxyHandler e obs i deadline req p =
     HandleRequest (clientExec ((e i)\<lparr>deadlineOf := deadline\<rparr>))
       ((obs i)\<lparr>meanwhile := \<lambda>q. q, ctxDeadline := deadline\<rparr>) (Some req) p"

interpretation proxied: request_handler "proxyHandler e obs" "\<lambda>p. cache_wf (pcache p)" for e obs
proof
  fix s req i dl out
  assume wf: "cache_wf (pcache s)" and "parsed_request req" and "proxyHandler e obs i dl req s = Some out"
  then have "HandleRequest (clientExec ((e i)\<lparr>deadlineOf := dl\<rparr>))
      ((obs i)\<lparr>meanwhile := \<lambda>q. q, ctxDeadline := dl\<rparr>) (Some req) s = Some out"
    by (simp add: proxyHandler_def)
  from client_upstream.request_keeps_wf [OF wf _ this]
  show "\<exists>r s'. out = Returns (r, s') \<and> cache_wf (pcache s')" by simp
qed

definition idle_seen :: "world seen" where
  "idle_seen = \<lparr>hitClock = (\<lambda>_. 0), storeClock = 0, iterations = [], ctxErr = None, ctxDeadline = None,
     nowAfter = 0, meanwhile = (\<lambda>p. p)\<rparr>"

subsection \<open>Properties\<close>


text \<open>
  In the default mode a write is answered without the device, byte for byte. A well-formed
  write request that a client sends on a fresh connection is answered by one frame with its own
  transaction id and slave id around the first five bytes of its PDU; the proxy, its cache and the
  upstream client with everything it ever sent are as before.
\<close>

lemma readonly_write_end_to_end:
  assumes "wf_request req" and "valid_request req" and "IsWriteFunction (FunctionCode req)"
    and "ReadOnly (pcfg p) = ReadOnlyOn" and "\<not> serverDone it" and "requestErr rt it = None" and "writeErr it = None"
  shows "\<exists>r. serveConn rt (proxyHandler e obs) [it] \<lparr>inbuf = encodeRequest req @ rest, inerr = err\<rparr> p = r \<and>
    written r = [writeResponse (TransactionID req) (SlaveID req) (take 5 (PDU req))] \<and>
    hstate r = p \<and> inbuf (rest_in r) = rest"
proof -
  let ?c = "\<lparr>inbuf = encodeRequest req @ rest, inerr = err\<rparr>"
  have rd: "readRequest ?c = Returns (Inr req, \<lparr>inbuf = rest, inerr = err\<rparr>)"
    using assms(1) by (rule readRequest_encoded)
  have "parsed_request req" using readRequest_frame(3) [OF rd] .
  then have "proxyHandler e obs 0 dl req p = Some (Returns (Inr (take 5 (PDU req)), p))" for dl
    unfolding proxyHandler_def HandleRequest_write [OF assms(2,3)]
    using assms(3,4) by (simp add: handleWrite_def fake_response_echoes)
  then show ?thesis using rd assms(5-7) by (simp add: serveConn_def Let_def responsePDU_def)
qed

end
