(* ===== verification/Lifecycle.thy ===== *)
theory Lifecycle
  imports Health_Endpoint Proxy_Server
begin

text \<open>
  The life of the process: \<open>Run\<close> and \<open>Shutdown\<close> of \<^verbatim>\<open>internal/proxy/proxy.go\<close> and
  \<^verbatim>\<open>cmd/mbproxy/main.go\<close>. What the process learns from outside (environment
  variables, whether a listener can be bound, what wakes the main goroutine, what requests did to
  the proxy until then) is in a record of observations; what it does is a list of events and an
  exit code. The lemmas show what a clean exit means and in which order the parts are stopped.
\<close>

subsection \<open>Run and Shutdown\<close>

datatype main_event =
    Logged log_record
  | Stderr goerror
  | HealthServing string
  | Running
  | ContextCancelled
  | HealthStopped
  | ServerClosed
  | AwaitedConnections bool
  | CacheClosed
  | UpstreamClosed

definition logLine :: "level \<Rightarrow> string \<Rightarrow> (string \<times> log_value) list \<Rightarrow> main_event" where
  "logLine lvl msg args = Logged \<lparr>recLevel = lvl, recMessage = msg, recAttrs = args\<rparr>"

text \<open>\<open>bindErr\<close> is the error of \<^verbatim>\<open>net.Listen\<close>.\<close>

definition ServerListen :: "goerror option \<Rightarrow> goerror option" where
  "ServerListen bindErr = map_option (Wrap ''listen'') bindErr"

fun readOnlyText :: "readOnlyMode \<Rightarrow> string" where
  "readOnlyText ReadOnlyOff = ''false''"
| "readOnlyText ReadOnlyOn = ''true''"
| "readOnlyText ReadOnlyDeny = ''deny''"

text \<open>\<open>serveErr\<close> is what \<^verbatim>\<open>Serve\<close> returns in the end.\<close>

definition ProxyRun :: "env \<Rightarrow> goerror option \<Rightarrow> goerror option \<Rightarrow> world proxy \<Rightarrow>
    (goerror option \<times> world proxy) \<times> main_event list" where
  "ProxyRun e bindErr serveErr p =
     (let start = logLine LevelInfo ''starting proxy''
            [(''listen'', VString (Listen (pcfg p))), (''upstream'', VString (Upstream (pcfg p))),
             (''readonly'', VString (readOnlyText (ReadOnly (pcfg p)))),
             (''cache_ttl'', VDuration (CacheTTL (pcfg p))),
             (''request_timeout'', VDuration (RequestTimeout (pcfg p)))]
      in case ServerListen bindErr of
           Some err \<Rightarrow> ((Some (Wrap ''listen'' err), p), [start])
         | None \<Rightarrow>
             (case run_state (Connect e) (upstream p) of
                (Some err, w) \<Rightarrow>
                  ((serveErr, p\<lparr>upstream := w\<rparr>),
                   [start, logLine LevelWarn ''initial upstream connection failed, will retry on first request''
                      [(''error'', VError err)]])
              | (None, w) \<Rightarrow> ((serveErr, p\<lparr>upstream := w\<rparr>), [start])))"

text \<open>
  \<open>waited\<close> says which case of the \<^verbatim>\<open>select\<close> fired: all connections ended, or the timeout
  passed.
\<close>

definition ProxyShutdown :: "env \<Rightarrow> bool \<Rightarrow> duration \<Rightarrow> world proxy \<Rightarrow>
    (goerror option \<times> world proxy) go \<times> main_event list" where
  "ProxyShutdown e waited timeout p =
     (let events =
        [logLine LevelInfo ''shutting down'' [(''timeout'', VDuration timeout)], ServerClosed,
         AwaitedConnections waited,
         (if waited then logLine LevelDebug ''all connections closed'' []
          else logLine LevelWarn ''shutdown timeout, forcing close'' [])]
      in case CloseCache (pcache p) of
           Panics \<Rightarrow> (Panics, events)
         | Returns c \<Rightarrow>
             (case run_state (CloseClient e) (upstream p) of
                (err, w) \<Rightarrow> (Returns (err, p\<lparr>pcache := c, upstream := w\<rparr>), events @ [CacheClosed, UpstreamClosed])))"

subsection \<open>The main function\<close>

datatype wake = GotSignal string | RunEnded "goerror option"

record observed =
  healthFlag :: bool
  environ :: environment
  parseDuration :: "string \<Rightarrow> goerror + duration"
  quoted :: "string \<Rightarrow> string"
  httpGet :: "string \<Rightarrow> goerror + nat"
  healthBindErr :: "goerror option"
  healthAddr :: string
  wokenBy :: wake
  lived :: "world proxy \<Rightarrow> world proxy"
  healthStopErr :: "goerror option"
  connectionsEnded :: bool
  background :: env

text \<open>The exit code, \<open>Panics\<close> for a crash; the proxy at the end, if one was made.\<close>

record exit_state =
  exitCode :: "nat go"
  events :: "main_event list"
  finalProxy :: "world proxy option"

definition exit_with :: "nat \<Rightarrow> main_event list \<Rightarrow> world proxy option \<Rightarrow> exit_state" where
  "exit_with code evs p = \<lparr>exitCode = Returns code, events = evs, finalProxy = p\<rparr>"

definition mainHealthCheck :: "observed \<Rightarrow> exit_state" where
  "mainHealthCheck obs =
     (let addr = Getenv (environ obs) ''HEALTH_LISTEN'' in
      if addr = [] then exit_with 1 [Stderr (Plain ''HEALTH_LISTEN is not set'')] None
      else (case CheckHealth (quoted obs) (httpGet obs) addr of
              Some err \<Rightarrow> exit_with 1 [Stderr err] None
            | None \<Rightarrow> exit_with 0 [] None))"

definition newWorld :: "config \<Rightarrow> world" where
  "newWorld cfg = \<lparr>wclient = NewClient (Upstream cfg) (AttemptTimeout cfg) (RequestDelay cfg) (ConnectDelay cfg),
     wtick = 0, wtrace = [], wlog = []\<rparr>"

text \<open>
  From the wake-up on: \<open>p\<close> is the proxy after its life, \<open>evs\<close> what happened before.
\<close>

definition mainShutdown :: "observed \<Rightarrow> config \<Rightarrow> main_event list \<Rightarrow> world proxy \<Rightarrow> exit_state" where
  "mainShutdown obs cfg evs p =
     (let evs = evs @ [ContextCancelled] @
            (if HealthListen cfg \<noteq> [] then
               HealthStopped # (case healthStopErr obs of
                 Some err \<Rightarrow> [logLine LevelError ''health server shutdown error'' [(''error'', VError err)]]
               | None \<Rightarrow> [])
             else [])
      in case ProxyShutdown (background obs) (connectionsEnded obs) (ShutdownTimeout cfg) p of
           (Panics, evs2) \<Rightarrow> \<lparr>exitCode = Panics, events = evs @ evs2, finalProxy = Some p\<rparr>
         | (Returns (Some err, p'), evs2) \<Rightarrow>
             exit_with 1 (evs @ evs2 @ [logLine LevelError ''shutdown error'' [(''error'', VError err)]]) (Some p')
         | (Returns (None, p'), evs2) \<Rightarrow>
             exit_with 0 (evs @ evs2 @ [logLine LevelInfo ''shutdown complete'' []]) (Some p'))"

text \<open>Starting the health server, if one is configured.\<close>

definition startHealth :: "observed \<Rightarrow> config \<Rightarrow> goerror + main_event list" where
  "startHealth obs cfg =
     (if HealthListen cfg = [] then Inr []
      else (case ListenHealth (healthBindErr obs) (healthAddr obs) of
              (Inl err, logs) \<Rightarrow> Inl err
            | (Inr addr, logs) \<Rightarrow> Inr (map Logged logs @ [HealthServing addr])))"

definition main :: "observed \<Rightarrow> exit_state" where
  "main obs =
     (if healthFlag obs then mainHealthCheck obs
      else (case Load (parseDuration obs) (environ obs) of
        Inl err \<Rightarrow> exit_with 1 [logLine LevelError ''failed to load configuration'' [(''error'', VError err)]] None
      | Inr cfg \<Rightarrow>
          (let (p, warn) = NewProxy cfg (newWorld cfg);
               evs = (if warn then [logLine LevelWarn ''request budget may expire before a full read retry''
                        [(''attempt_timeout'', VDuration (AttemptTimeout cfg)),
                         (''connect_delay'', VDuration (ConnectDelay cfg)),
                         (''request_delay'', VDuration (RequestDelay cfg)),
                         (''request_timeout'', VDuration (RequestTimeout cfg)),
                         (''full_retry_budget'', VDuration (retryBudget cfg))]] else [])
           in case startHealth obs cfg of
              Inl err \<Rightarrow>
                exit_with 1 (evs @ [logLine LevelError ''failed to start health server'' [(''error'', VError err)]]) (Some p)
            | Inr started \<Rightarrow>
                (let evs = evs @ started @ [Running];
                     p' = lived obs p
                 in case wokenBy obs of
                      GotSignal sig \<Rightarrow>
                        mainShutdown obs cfg (evs @ [logLine LevelInfo ''received signal, shutting down''
                          [(''signal'', VString sig)]]) p'
                    | RunEnded (Some err) \<Rightarrow>
                        exit_with 1 (evs @ [logLine LevelError ''proxy error'' [(''error'', VError err)]]) (Some p')
                    | RunEnded None \<Rightarrow> mainShutdown obs cfg evs p'))))"

subsection \<open>Lemmas\<close>

text \<open>The background context is never done and has no deadline.\<close>

definition background_ctx :: "env \<Rightarrow> bool" where
  "background_ctx e \<longleftrightarrow> (\<forall>t. ctxErrAt e t = None) \<and> deadlineOf e = None \<and> (\<forall>t. ownerAt e t = Fired)"

lemma CloseClient_runs:
  assumes "background_ctx e"
  shows "wp (CloseClient e) (\<lambda>r w'. session (wclient w') = None \<and> \<not> connected (wclient w') \<and>
    (\<exists>d. wtrace w' = Released # d @ Acquired # wtrace w \<and>
       d = (if session (wclient w) = None then [] else [SessionClosed])) \<and>
    (session (wclient w) = None \<longrightarrow> r = None)) w"
  using assms
  by (auto simp: CloseClient_def acquire_def release_def background_ctx_def wp_simps split: option.split)

lemma ProxyShutdown_returns:
  assumes "background_ctx e" and "\<not> done_closed (pcache p)"
  shows "\<exists>err p' evs. ProxyShutdown e waited timeout p = (Returns (err, p'), evs) \<and>
    session (wclient (upstream p')) = None \<and> \<not> connected (wclient (upstream p')) \<and> done_closed (pcache p') \<and>
    (session (wclient (upstream p)) = None \<longrightarrow> err = None)"
  using CloseClient_runs [OF assms(1), of "upstream p"] assms(2)
  by (auto simp: ProxyShutdown_def CloseCache_def wp_def Let_def split: prod.splits)

lemma ProxyShutdown_events:
  "\<exists>a b. snd (ProxyShutdown e waited timeout p) = a @ ServerClosed # AwaitedConnections waited # b"
proof -
  have "snd (ProxyShutdown e waited timeout p) = logLine LevelInfo ''shutting down'' [(''timeout'', VDuration timeout)] #
      ServerClosed # AwaitedConnections waited # drop 3 (snd (ProxyShutdown e waited timeout p))"
    by (auto simp: ProxyShutdown_def Let_def split: prod.splits go.splits)
  then show ?thesis by (metis append_Cons append_Nil)
qed

text \<open>
  Running the proxy binds its own address before it contacts the device, and goes on serving when
  the first connection attempt fails. It leaves the client in a state its operations can reach, and
  so does every request the proxy passes on.
\<close>

lemma ProxyRun_result:
  "fst (fst (ProxyRun e (Some err) serveErr p)) = Some (Wrap ''listen'' (Wrap ''listen'' err))"
  "snd (fst (ProxyRun e (Some err) serveErr p)) = p"
  "fst (fst (ProxyRun e None serveErr p)) = serveErr"
  by (simp_all add: ProxyRun_def ServerListen_def Let_def split: prod.split option.split)

lemma newWorld_reachable: "client_reachable (newWorld cfg)"
  unfolding newWorld_def by (rule client_reachable.new_client)

lemma ProxyRun_reachable:
  assumes "client_reachable (upstream p)"
  shows "client_reachable (upstream (snd (fst (ProxyRun e bindErr serveErr p))))"
  using assms client_reachable.connect_client [OF assms]
  by (auto simp: ProxyRun_def ServerListen_def Let_def split: prod.splits option.splits)

lemma clientExec_reachable:
  assumes "client_reachable (upstream p)" and "valid_request req" and "ctx_ok e" and "dial_ok e"
  shows "client_reachable (upstream (snd (clientExec e req p)))"
  using client_reachable.execute_client [OF assms]
  by (auto simp: clientExec_def split: prod.split option.split)

lemma ProxyShutdown_reachable:
  assumes "client_reachable (upstream p)" and "ProxyShutdown e waited timeout p = (Returns (err, p'), evs)"
  shows "client_reachable (upstream p')"
  using assms client_reachable.close_client [OF assms(1)]
  by (auto simp: ProxyShutdown_def Let_def split: prod.splits go.splits)

lemma mainShutdown_releases:
  assumes "background_ctx (background obs)" and "\<not> done_closed (pcache p)"
  shows "\<exists>code p'. exitCode (mainShutdown obs cfg evs p) = Returns code \<and>
    finalProxy (mainShutdown obs cfg evs p) = Some p' \<and> session (wclient (upstream p')) = None \<and>
    \<not> connected (wclient (upstream p')) \<and> done_closed (pcache p')"
proof -
  obtain err p' evs2 where sd: "ProxyShutdown (background obs) (connectionsEnded obs) (ShutdownTimeout cfg) p =
      (Returns (err, p'), evs2)"
    and p': "session (wclient (upstream p')) = None" "\<not> connected (wclient (upstream p'))" "done_closed (pcache p')"
    using ProxyShutdown_returns [OF assms] by blast
  show ?thesis by (cases err) (simp_all add: mainShutdown_def Let_def sd exit_with_def p')
qed

lemma mainShutdown_events:
  "\<exists>c d. events (mainShutdown obs cfg evs p) = evs @ ContextCancelled # c @ ServerClosed #
     AwaitedConnections (connectionsEnded obs) # d"
proof -
  let ?r = "ProxyShutdown (background obs) (connectionsEnded obs) (ShutdownTimeout cfg) p"
  let ?h = "if HealthListen cfg \<noteq> [] then
      HealthStopped # (case healthStopErr obs of
        Some err \<Rightarrow> [logLine LevelError ''health server shutdown error'' [(''error'', VError err)]]
      | None \<Rightarrow> [])
    else []"
  have "\<exists>h t. events (mainShutdown obs cfg evs p) = evs @ ContextCancelled # h @ snd ?r @ t"
  proof (cases ?r)
    case (Pair r evs2)
    then have "\<exists>t. events (mainShutdown obs cfg evs p) = evs @ ContextCancelled # ?h @ evs2 @ t"
      by (auto simp: mainShutdown_def exit_with_def Let_def split: go.split option.split)
    with Pair show ?thesis by auto
  qed
  then obtain h t where ev: "events (mainShutdown obs cfg evs p) = evs @ ContextCancelled # h @ snd ?r @ t" by blast
  obtain a b where "snd ?r = a @ ServerClosed # AwaitedConnections (connectionsEnded obs) # b"
    using ProxyShutdown_events by blast
  with ev have "events (mainShutdown obs cfg evs p) =
      evs @ ContextCancelled # (h @ a) @ ServerClosed # AwaitedConnections (connectionsEnded obs) # (b @ t)" by simp
  then show ?thesis by blast
qed

text \<open>
  The runs of the main function that get as far as stopping the proxy, with what happened before.
\<close>

lemma main_cases:
  assumes "\<not> healthFlag obs"
  shows "(exitCode (main obs) = Returns 1 \<and> (\<forall>b. AwaitedConnections b \<notin> set (events (main obs)))) \<or>
    (\<exists>cfg evs. Load (parseDuration obs) (environ obs) = Inr cfg \<and>
       main obs = mainShutdown obs cfg evs (lived obs (fst (NewProxy cfg (newWorld cfg)))))"
  using assms
  by (auto simp: main_def exit_with_def Let_def NewProxy_def logLine_def startHealth_def ListenHealth_def
      split: sum.splits wake.splits option.splits if_splits)

definition demo_observed :: observed where
  "demo_observed = \<lparr>healthFlag = False, environ = [''MODBUS_UPSTREAM'' \<mapsto> ''dev:502''],
     parseDuration = (\<lambda>_. Inr second), quoted = (\<lambda>s. s), httpGet = (\<lambda>_. Inr 200), healthBindErr = None, healthAddr = [],
     wokenBy = GotSignal ''terminated'', lived = (\<lambda>p. p), healthStopErr = None, connectionsEnded = True,
     background = demo_env\<rparr>"

lemma demo_observed_ok:
  "background_ctx (background demo_observed)" "\<not> healthFlag demo_observed" "lived demo_observed p = p"
  by (simp_all add: demo_observed_def background_ctx_def demo_env_def)

lemma demo_main_waits: "\<exists>cfg evs p. main demo_observed = mainShutdown demo_observed cfg evs p"
proof -
  obtain cfg where "Load (parseDuration demo_observed) (environ demo_observed) = Inr cfg" "HealthListen cfg = []"
    using Load_defaults [of "''dev:502''"] by (simp add: demo_observed_def)
  then show ?thesis by (auto simp: main_def startHealth_def Let_def demo_observed_def split: prod.split)
qed

subsection \<open>Properties\<close>



end
