(* ===== verification/Client_Runs.thy ===== *)
theory Client_Runs
  imports Upstream_Client
begin

text \<open>
  What whole runs of the upstream client (\<^verbatim>\<open>internal/modbus/client.go\<close>) guarantee from
  one request to the next: the pacing of requests, the health record, and the log. A guarantee is a
  relation between the world before an action and the world after it; the locales state once what
  has to be shown of the basic actions so that a larger part of the client keeps it, and are
  interpreted for every guarantee used.
\<close>

subsection \<open>Guarantees\<close>

definition keeps :: "(world \<Rightarrow> world \<Rightarrow> bool) \<Rightarrow> 'a act \<Rightarrow> bool" where
  "keeps R m \<longleftrightarrow> (\<forall>w. wp m (\<lambda>_. R w) w)"

lemma wp_keeps: "keeps R m \<Longrightarrow> (\<And>a w'. R w w' \<Longrightarrow> Q a w') \<Longrightarrow> wp m Q w"
  by (auto simp: keeps_def intro: wp_mono)

lemma keeps_run: "keeps R m \<Longrightarrow> run_state m w = (a, w') \<Longrightarrow> R w w'"
  by (metis keeps_def wp_def snd_conv)

lemma wp_also_keeps:
  "keeps R m \<Longrightarrow> wp m Q w \<Longrightarrow> (\<And>a w'. R w w' \<Longrightarrow> Q a w' \<Longrightarrow> Q' a w') \<Longrightarrow> wp m Q' w"
  by (simp add: keeps_def wp_def)

lemma wp_conj: "wp m P w \<Longrightarrow> wp m Q w \<Longrightarrow> (\<And>a w'. P a w' \<Longrightarrow> Q a w' \<Longrightarrow> Q' a w') \<Longrightarrow> wp m Q' w"
  by (simp add: wp_def)

lemma keeps_if: "(b \<Longrightarrow> keeps R m) \<Longrightarrow> (\<not> b \<Longrightarrow> keeps R m') \<Longrightarrow> keeps R (if b then m else m')"
  by simp

lemma keeps_option: "keeps R m \<Longrightarrow> (\<And>x. keeps R (f x)) \<Longrightarrow> keeps R (case a of None \<Rightarrow> m | Some x \<Rightarrow> f x)"
  by (cases a) auto

lemma keeps_sum: "(\<And>x. keeps R (f x)) \<Longrightarrow> (\<And>x. keeps R (g x)) \<Longrightarrow> keeps R (case a of Inl x \<Rightarrow> f x | Inr x \<Rightarrow> g x)"
  by (cases a) auto

lemma keeps_wait: "keeps R m \<Longrightarrow> (\<And>x. keeps R (f x)) \<Longrightarrow> keeps R (case a of Fired \<Rightarrow> m | ContextDone x \<Rightarrow> f x)"
  by (cases a) auto

lemma keeps_outcome:
  "(\<And>x. keeps R (f x)) \<Longrightarrow> (\<And>t s x. keeps R (g t s x)) \<Longrightarrow>
   keeps R (case a of Finish x \<Rightarrow> f x | Continue t s x \<Rightarrow> g t s x)"
  by (cases a) auto

lemmas keeps_splits = keeps_if keeps_option keeps_sum keeps_wait keeps_outcome

text \<open>Actions that only read the outside.\<close>

locale guarantee =
  fixes R :: "world \<Rightarrow> world \<Rightarrow> bool"
  assumes R_refl: "R w w"
    and R_trans: "R u v \<Longrightarrow> R v w \<Longrightarrow> R u w"
    and R_tick: "R w (w\<lparr>wtick := Suc (wtick w)\<rparr>)"
begin

lemma keeps_basic:
  "keeps R (ret a)" "keeps R (look sel)" "keeps R tick" "keeps R (observe f)"
  by (simp_all add: keeps_def wp_simps R_refl R_tick)

lemma keeps_bind: "keeps R m \<Longrightarrow> (\<And>a. keeps R (f a)) \<Longrightarrow> keeps R (State_Monad.bind m f)"
  unfolding keeps_def wp_bind by (blast intro: wp_mono R_trans)

lemmas keeps_intros = keeps_basic keeps_bind keeps_splits

lemma keeps_reading:
  "keeps R (contextError e)" "keeps R (since e start)" "keeps R (socketTimeoutFor e)"
  "keeps R (attributeError e req err)"
  unfolding contextError_def since_def socketTimeoutFor_def attributeError_def Let_def
  by (intro keeps_intros)+

end

text \<open>The messages of the records of a request; every other record of the client is about the session.\<close>

definition request_messages :: "string set" where
  "request_messages = {''upstream request completed'', ''upstream request failed'', ''upstream request attempt failed''}"

text \<open>Connecting, disconnecting, waiting for the slot, taking and giving back the owner token.\<close>

locale session_guarantee = guarantee +
  assumes R_event: "\<not> is_sent ev \<Longrightarrow> R w (w\<lparr>wtrace := ev # wtrace w\<rparr>)"
    and R_record: "recMessage r \<notin> request_messages \<Longrightarrow> R w (w\<lparr>wlog := r # wlog w\<rparr>)"
    and R_session: "R w (w\<lparr>wclient := (wclient w)\<lparr>session := s, lastErr := x, connected := b\<rparr>\<rparr>)"
begin

lemma keeps_effects:
  "\<not> is_sent ev \<Longrightarrow> keeps R (emit ev)"
  "msg \<notin> request_messages \<Longrightarrow> keeps R (log_line (debugRecord msg args))"
  "keeps R (log_line \<lparr>recLevel = LevelInfo, recMessage = ''connected to upstream'', recAttrs = args\<rparr>)"
  by (simp_all add: keeps_def wp_simps R_event R_record debugRecord_def request_messages_def)

lemma keeps_change_session:
  assumes "\<And>c. \<exists>s x b. f c = c\<lparr>session := s, lastErr := x, connected := b\<rparr>"
  shows "keeps R (change f)"
proof -
  have "R w (w\<lparr>wclient := f (wclient w)\<rparr>)" for w
    using assms [of "wclient w"] R_session by auto
  then show ?thesis by (simp add: keeps_def wp_simps)
qed

lemma keeps_session_changes:
  "keeps R (change (\<lambda>c. c\<lparr>connected := b, lastErr := x, session := s\<rparr>))"
  "keeps R (change (\<lambda>c. c\<lparr>session := s, connected := b, lastErr := x\<rparr>))"
  "keeps R (change (\<lambda>c. c\<lparr>session := s, connected := b\<rparr>))"
  "keeps R (change (\<lambda>c. c\<lparr>session := s\<rparr>))"
  "keeps R (change (\<lambda>c. c\<lparr>connected := b\<rparr>))"
proof -
  have eqs: "c\<lparr>session := s, connected := b\<rparr> = c\<lparr>session := s, lastErr := lastErr c, connected := b\<rparr>"
    "c\<lparr>session := s\<rparr> = c\<lparr>session := s, lastErr := lastErr c, connected := connected c\<rparr>"
    "c\<lparr>connected := b\<rparr> = c\<lparr>session := session c, lastErr := lastErr c, connected := b\<rparr>"
    "c\<lparr>connected := b, lastErr := x, session := s\<rparr> = c\<lparr>session := s, lastErr := x, connected := b\<rparr>"
    "c\<lparr>session := s, connected := b, lastErr := x\<rparr> = c\<lparr>session := s, lastErr := x, connected := b\<rparr>" for c :: client
    by simp_all
  show "keeps R (change (\<lambda>c. c\<lparr>session := s, connected := b\<rparr>))"
    by (rule keeps_change_session) (use eqs(1) in blast)
  show "keeps R (change (\<lambda>c. c\<lparr>session := s\<rparr>))" by (rule keeps_change_session) (use eqs(2) in blast)
  show "keeps R (change (\<lambda>c. c\<lparr>connected := b\<rparr>))" by (rule keeps_change_session) (use eqs(3) in blast)
  show "keeps R (change (\<lambda>c. c\<lparr>connected := b, lastErr := x, session := s\<rparr>))"
    by (rule keeps_change_session) (use eqs(4) in blast)
  show "keeps R (change (\<lambda>c. c\<lparr>session := s, connected := b, lastErr := x\<rparr>))"
    by (rule keeps_change_session) (use eqs(5) in blast)
qed

lemmas keeps_session_intros = keeps_intros keeps_reading keeps_effects keeps_session_changes

lemma keeps_closeSession: "msg \<notin> request_messages \<Longrightarrow> keeps R (closeSession e msg)"
  unfolding closeSession_def logUnlessClosed_def by (intro keeps_session_intros) simp_all

lemma keeps_connectLocked: "keeps R (connectLocked e)"
  unfolding connectLocked_def
  by (intro keeps_session_intros keeps_closeSession) (simp_all add: request_messages_def)

lemma keeps_disconnectLocked: "keeps R (disconnectLocked e)"
  unfolding disconnectLocked_def
  by (intro keeps_session_intros keeps_closeSession) (simp_all add: request_messages_def)

lemma keeps_waitForRequestSlot: "keeps R (waitForRequestSlot e)"
  unfolding waitForRequestSlot_def Let_def
  by (intro keeps_session_intros) (simp_all add: request_messages_def)

lemma keeps_finishRequest: "msg \<notin> request_messages \<Longrightarrow> keeps R (finishRequest e msg)"
  unfolding finishRequest_def by (intro keeps_session_intros) simp_all

lemma keeps_owner: "keeps R (acquire e)" "keeps R release"
  unfolding acquire_def release_def by (intro keeps_session_intros; simp)+

lemma keeps_Connect: "keeps R (Connect e)"
  unfolding Connect_def by (intro keeps_session_intros keeps_owner keeps_connectLocked)

lemma keeps_CloseClient: "keeps R (CloseClient e)"
  unfolding CloseClient_def by (intro keeps_session_intros keeps_owner) simp_all

end

text \<open>
  A run of the client: operations one after the other, as the owner token makes them, each with its
  own environment.
\<close>

inductive client_run :: "(env \<Rightarrow> bool) \<Rightarrow> world \<Rightarrow> world \<Rightarrow> bool" for ok :: "env \<Rightarrow> bool" and w0 :: world where
  run_start: "client_run ok w0 w0"
| run_connect: "client_run ok w0 w \<Longrightarrow> ok e \<Longrightarrow> run_state (Connect e) w = (r, w') \<Longrightarrow> client_run ok w0 w'"
| run_close: "client_run ok w0 w \<Longrightarrow> ok e \<Longrightarrow> run_state (CloseClient e) w = (r, w') \<Longrightarrow> client_run ok w0 w'"
| run_execute: "client_run ok w0 w \<Longrightarrow> ok e \<Longrightarrow> run_state (Execute e reqp) w = (res, w') \<Longrightarrow> client_run ok w0 w'"

text \<open>
  An attempt up to the call, and after a failed one, under environments that satisfy \<open>ok\<close>. A
  retry is counted and logged together.
\<close>

locale attempt_guarantee = session_guarantee +
  fixes ok :: "env \<Rightarrow> bool"
  assumes R_failed: "R w (w\<lparr>wlog := logFailure req n t x False # wlog w\<rparr>)"
    and R_final: "keeps R (finalError x m t)"
    and R_retried: "R w (w\<lparr>wclient := (wclient w)\<lparr>totalRetries := totalRetries (wclient w) + 1\<rparr>,
      wlog := logFailure req n t x True # wlog w\<rparr>)"
    and R_first: "ok e \<Longrightarrow> keeps R (recordFirstFailure e)"
begin

lemma keeps_retried:
  assumes "keeps R m"
  shows "keeps R (State_Monad.bind recordRetry (\<lambda>_. State_Monad.bind (log_line (logFailure req n t x True)) (\<lambda>_. m)))"
  unfolding keeps_def
proof
  fix w :: world
  let ?w = "w\<lparr>wclient := (wclient w)\<lparr>totalRetries := totalRetries (wclient w) + 1\<rparr>,
    wlog := logFailure req n t x True # wlog w\<rparr>"
  have "wp m (\<lambda>_. R w) ?w" by (rule wp_keeps [OF assms]) (rule R_trans [OF R_retried])
  then show "wp (State_Monad.bind recordRetry (\<lambda>_. State_Monad.bind (log_line (logFailure req n t x True)) (\<lambda>_. m)))
      (\<lambda>_. R w) w" by (simp add: wp_simps recordRetry_def)
qed

lemma keeps_fail: "keeps R (fail req x m t)"
  unfolding fail_def
  by (intro keeps_session_intros R_final) (simp add: keeps_def wp_simps R_failed)

lemmas keeps_attempt_intros = keeps_session_intros keeps_fail keeps_retried R_first
  keeps_connectLocked keeps_disconnectLocked keeps_waitForRequestSlot keeps_finishRequest

lemma keeps_phases:
  "keeps R (slotPhase e req start a sr t)" "keeps R (checkContext e req start a t)"
  unfolding slotPhase_def checkContext_def Let_def by (intro keeps_attempt_intros)+

lemma keeps_beginPhase: "keeps R (beginPhase e req start a t)"
  unfolding beginPhase_def
  by (intro keeps_attempt_intros keeps_phases) (simp_all add: request_messages_def)

lemma keeps_connectPhase: "ok e \<Longrightarrow> keeps R (connectPhase e req start a sr t)"
  unfolding connectPhase_def Let_def by (intro keeps_attempt_intros)

lemma keeps_giveUpOrRetry: "ok e \<Longrightarrow> keeps R (giveUpOrRetry e req start a t err)"
  unfolding giveUpOrRetry_def Let_def by (intro keeps_attempt_intros)

end

text \<open>A whole request. A success is recorded and logged together.\<close>

locale request_guarantee = attempt_guarantee +
  assumes R_sent: "R w (w\<lparr>wtrace := Sent i k c # wtrace w\<rparr>)"
    and R_slot: "R w (w\<lparr>wclient := (wclient w)\<lparr>nextRequestAt := at\<rparr>\<rparr>)"
    and R_success: "ok e \<Longrightarrow> wp (recordSuccess a (clockAt e (wtick w)))
      (\<lambda>_ w'. R w (w'\<lparr>wlog := logSuccess req (int a) t # wlog w'\<rparr>)) (w\<lparr>wtick := Suc (wtick w)\<rparr>)"
begin

lemma keeps_success:
  assumes "ok e"
  shows "keeps R (State_Monad.bind (observe (clockAt e)) (\<lambda>now. State_Monad.bind (recordSuccess a now)
    (\<lambda>_. State_Monad.bind (log_line (logSuccess req (int a) (f now))) (\<lambda>_. ret b))))"
  unfolding keeps_def wp_simps using R_success [OF assms] by blast

lemma keeps_executeRequest: "keeps R (executeRequest e req)"
  unfolding executeRequest_def
  by (intro keeps_intros) (simp_all add: keeps_def wp_simps R_sent R_event)

lemma keeps_succeed: "ok e \<Longrightarrow> keeps R (succeed e req start a t rc resp)"
  unfolding succeed_def Let_def
  by (intro keeps_attempt_intros keeps_success) (simp_all add: keeps_def wp_simps R_slot)

lemma keeps_sendPhase: "ok e \<Longrightarrow> keeps R (sendPhase e req start a t)"
  unfolding sendPhase_def Let_def
  by (intro keeps_attempt_intros keeps_executeRequest keeps_succeed keeps_giveUpOrRetry)
    (simp_all add: request_messages_def)

lemma keeps_executeAttempt: "ok e \<Longrightarrow> keeps R (executeAttempt e req start a sr t)"
  unfolding executeAttempt_def
  by (intro keeps_intros keeps_connectPhase keeps_phases keeps_beginPhase keeps_sendPhase)

lemma keeps_executeLoop: "ok e \<Longrightarrow> keeps R (executeLoop e req start as sr t x)"
proof (induction as arbitrary: sr t x)
  case Nil
  then show ?case unfolding executeLoop.simps by (intro keeps_attempt_intros R_final)
next
  case (Cons a as)
  then show ?case unfolding executeLoop.simps by (intro keeps_intros keeps_executeAttempt)
qed

lemma keeps_Execute:
  assumes "ok e"
  shows "keeps R (Execute e reqp)"
proof (cases "ValidateRequest reqp")
  case None
  show ?thesis using assms unfolding Execute_def None Let_def
    by (cases reqp) (simp_all, (intro keeps_session_intros keeps_owner keeps_executeLoop; assumption?)+)
next
  case (Some x)
  then show ?thesis unfolding Execute_def by (simp, intro keeps_session_intros)
qed

lemma guaranteed: "client_run ok w0 w \<Longrightarrow> R w0 w"
proof (induction rule: client_run.induct)
  case (run_connect w e r w')
  then show ?case using keeps_run [OF keeps_Connect] R_trans by blast
next
  case (run_close w e r w')
  then show ?case using keeps_run [OF keeps_CloseClient] R_trans by blast
next
  case (run_execute w e reqp r w')
  then show ?case using keeps_run [OF keeps_Execute] R_trans by blast
qed (rule R_refl)

end

subsection \<open>Results\<close>

text \<open>\<open>returns P m\<close>: whatever the world, the result of \<open>m\<close> satisfies \<open>P\<close>.\<close>

definition returns :: "('a \<Rightarrow> bool) \<Rightarrow> 'a act \<Rightarrow> bool" where
  "returns P m \<longleftrightarrow> (\<forall>w. wp m (\<lambda>a _. P a) w)"

lemma wp_returns: "returns P m \<Longrightarrow> wp m (\<lambda>a _. P a) w"
  by (simp add: returns_def)

lemma returns_ret: "P a \<Longrightarrow> returns P (ret a)"
  by (simp add: returns_def wp_simps)

lemma returns_bind: "(\<And>a. returns P (f a)) \<Longrightarrow> returns P (State_Monad.bind m f)"
  by (simp add: returns_def wp_def split: prod.split)

lemma returns_fail: "(\<And>r. isl r \<Longrightarrow> returns P (f r)) \<Longrightarrow> returns P (State_Monad.bind (fail req x m t) f)"
  by (auto simp: returns_def fail_def finalError_def Let_def wp_simps)

lemma returns_if: "returns P m \<Longrightarrow> returns P m' \<Longrightarrow> returns P (if b then m else m')"
  by simp

lemma returns_option: "returns P m \<Longrightarrow> (\<And>x. returns P (f x)) \<Longrightarrow> returns P (case a of None \<Rightarrow> m | Some x \<Rightarrow> f x)"
  by (cases a) auto

lemma returns_bind_some:
  assumes "returns T m" and "\<And>a. T a \<Longrightarrow> returns P (f a)"
  shows "returns P (State_Monad.bind m f)"
  using assms unfolding returns_def wp_bind by (blast intro: wp_mono)

lemma returns_bind_known: "returns (\<lambda>a. a = x) m \<Longrightarrow> returns P (f x) \<Longrightarrow> returns P (State_Monad.bind m f)"
  by (rule returns_bind_some [where T = "\<lambda>a. a = x"]) simp_all

lemma returns_observe: "(\<And>t. P (f t)) \<Longrightarrow> returns P (observe f)"
  by (simp add: returns_def wp_simps)

subsection \<open>Triples\<close>

definition triple :: "(world \<Rightarrow> bool) \<Rightarrow> 'a act \<Rightarrow> ('a \<Rightarrow> world \<Rightarrow> bool) \<Rightarrow> bool" where
  "triple P m T \<longleftrightarrow> (\<forall>w. P w \<longrightarrow> wp m T w)"

lemma triple_seq: "triple P m S \<Longrightarrow> (\<And>a. triple (S a) (f a) T) \<Longrightarrow> triple P (State_Monad.bind m f) T"
  unfolding triple_def wp_bind by (blast intro: wp_mono)

lemma triple_ret: "(\<And>w. P w \<Longrightarrow> T a w) \<Longrightarrow> triple P (ret a) T"
  by (simp add: triple_def wp_simps)

lemma triple_if: "triple P m T \<Longrightarrow> triple P m' T \<Longrightarrow> triple P (if b then m else m') T"
  by simp

lemma triple_option:
  "triple P m T \<Longrightarrow> (\<And>x. triple P (f x) T) \<Longrightarrow> triple P (case a of None \<Rightarrow> m | Some x \<Rightarrow> f x) T"
  by (cases a) auto

lemma triple_weaken:
  "triple P m T \<Longrightarrow> (\<And>w. P' w \<Longrightarrow> P w) \<Longrightarrow> (\<And>a w. T a w \<Longrightarrow> T' a w) \<Longrightarrow> triple P' m T'"
  unfolding triple_def by (blast intro: wp_mono)

lemma triple_look:
  "(\<And>x. triple (\<lambda>w. P w \<and> sel (wclient w) = x) (f x) T) \<Longrightarrow> triple P (State_Monad.bind (look sel) f) T"
  by (simp add: triple_def wp_simps)

lemma triple_sum:
  "(\<And>x. triple P (f x) T) \<Longrightarrow> (\<And>x. triple P (g x) T) \<Longrightarrow> triple P (case a of Inl x \<Rightarrow> f x | Inr x \<Rightarrow> g x) T"
  by (cases a) auto

subsection \<open>Time and start\<close>

text \<open>A clock that does not run backwards and is past Go's zero time.\<close>

definition steady :: "(nat \<Rightarrow> time) \<Rightarrow> bool" where
  "steady clk \<longleftrightarrow> mono clk \<and> (\<forall>t. 0 < clk t)"

lemma steady_step: "steady clk \<Longrightarrow> clk t \<le> clk (Suc t)" "steady clk \<Longrightarrow> clk t \<noteq> 0" "steady clk \<Longrightarrow> 0 \<le> clk t"
  by (auto simp: steady_def monoD less_imp_le) (metis less_irrefl)

lemma steady_mono: "steady clk \<Longrightarrow> s \<le> t \<Longrightarrow> clk s \<le> clk t"
  by (simp add: steady_def monoD)

text \<open>A new client, with an empty trace and an empty log.\<close>

definition started :: "string \<Rightarrow> duration \<Rightarrow> duration \<Rightarrow> duration \<Rightarrow> nat \<Rightarrow> world" where
  "started addr attempt_timeout request_delay connect_delay k =
     \<lparr>wclient = NewClient addr attempt_timeout request_delay connect_delay, wtick = k, wtrace = [], wlog = []\<rparr>"

subsection \<open>A live environment\<close>

text \<open>
  The context is never over, neither cancelled nor past its deadline, the owner token is free, timers
  fire and the device accepts connections.
\<close>

definition live :: "env \<Rightarrow> bool" where
  "live e \<longleftrightarrow> (\<forall>t. ctxErrAt e t = None) \<and> (\<forall>d t. deadlineOf e = Some d \<longrightarrow> clockAt e t < d) \<and> (\<forall>t. ownerAt e t = Fired) \<and>
     (\<forall>t d. slotAt e t d = Fired) \<and> (\<forall>t. dialAt e t = None)"

lemma live_contextError: "live e \<Longrightarrow> returns (\<lambda>r. r = None) (contextError e)"
  by (simp add: returns_def contextError_def live_def wp_simps split: option.split)

lemma live_acquire: "live e \<Longrightarrow> returns (\<lambda>r. r = None) (acquire e)"
  by (simp add: returns_def acquire_def live_def wp_simps)

lemma live_connectLocked:
  assumes "live e"
  shows "returns (\<lambda>r. r = None) (connectLocked e)"
proof -
  have "returns (\<lambda>r. r = None) (observe (dialAt e))" using assms by (intro returns_observe) (simp add: live_def)
  then show ?thesis unfolding connectLocked_def
    by (intro returns_bind [of _ _ "look session"] returns_bind [of _ _ "observe _"]
        returns_bind [of _ _ "case _ of None \<Rightarrow> _ | Some _ \<Rightarrow> _"] returns_bind_known [where x = None])
      (auto intro!: returns_bind returns_ret)
qed

lemma live_waitForRequestSlot:
  assumes "live e"
  shows "returns (\<lambda>r. r = None) (waitForRequestSlot e)"
  using assms live_contextError [OF assms]
  by (auto simp: waitForRequestSlot_def Let_def live_def returns_def wp_simps)

lemma live_connectPhase:
  assumes "live e"
  shows "returns (\<lambda>r. \<exists>t. r = Inr t) (connectPhase e req start a sr t)"
  unfolding connectPhase_def Let_def
  by (rule returns_bind, rule returns_if, simp add: returns_ret, rule returns_bind,
      rule returns_bind_known [OF live_connectLocked [OF assms]], rule returns_bind, simp add: returns_ret)

lemma live_slotPhase:
  assumes "live e"
  shows "returns (\<lambda>r. \<exists>t. r = Inr t) (slotPhase e req start a sr t)"
  unfolding slotPhase_def Let_def
  by (rule returns_if, simp add: returns_ret, rule returns_bind,
      rule returns_bind_known [OF live_waitForRequestSlot [OF assms]], rule returns_bind, simp add: returns_ret)

lemma live_checkContext: "live e \<Longrightarrow> returns (\<lambda>r. r = Inr ()) (checkContext e req start a t)"
  unfolding checkContext_def
  by (rule returns_bind_known [OF live_contextError]) (simp_all add: returns_ret)

lemma live_beginPhase:
  assumes "live e"
  shows "returns (\<lambda>r. r = Inr ()) (beginPhase e req start a t)"
  unfolding beginPhase_def
  by (rule returns_bind_known [OF live_checkContext [OF assms]], simp, rule returns_bind,
      rule returns_bind_known [OF live_checkContext [OF assms]], simp, rule returns_bind, rule returns_bind,
      rule returns_bind_known [OF live_contextError [OF assms]], simp add: returns_ret)

lemma live_sendPhase:
  assumes "live e" and "\<And>t. replyAt e t (callOf req) = Inr results"
  shows "returns (\<lambda>r. r = Finish (Inr (buildResponse req results))) (sendPhase e req start a t)"
proof -
  have reply: "returns (\<lambda>r. r = Inr (buildResponse req results)) (executeRequest e req)"
    unfolding executeRequest_def by (simp add: returns_def wp_simps assms(2) split: option.split)
  have none: "returns (\<lambda>r. r = None) (attributeError e req None)"
    by (simp add: attributeError_def classifyRequestPathError_def returns_ret)
  have success: "returns (\<lambda>r. r = Finish (Inr b)) (succeed e req start a t' rc b)" for t' rc b
    unfolding succeed_def
    by (rule returns_bind, rule returns_bind, rule returns_bind_known [OF live_contextError [OF assms(1)]])
      (auto simp: Let_def intro!: returns_bind returns_ret)
  show ?thesis unfolding sendPhase_def Let_def
    by (rule returns_bind, rule returns_bind_known [OF reply], rule returns_bind, rule returns_bind, rule returns_bind,
        simp, rule returns_bind_known [OF none], simp add: success)
qed

lemma live_Execute:
  assumes "live e" and "\<And>t. replyAt e t (callOf req) = Inr results" and "ValidateRequest (Some req) = None"
  shows "returns (\<lambda>r. r = Some (Inr (buildResponse req results))) (Execute e (Some req))"
proof -
  have att: "returns (\<lambda>r. r = Finish (Inr (buildResponse req results))) (executeAttempt e req start a sr t)" for start a sr t
    unfolding executeAttempt_def
    by (rule returns_bind_some [OF live_connectPhase [OF assms(1)]], clarsimp,
        rule returns_bind_some [OF live_slotPhase [OF assms(1)]], clarsimp,
        rule returns_bind_known [OF live_beginPhase [OF assms(1)]], simp add: live_sendPhase [OF assms(1,2)])
  have loop: "returns (\<lambda>r. r = Some (Inr (buildResponse req results))) (executeLoop e req start (a # as) sr t x)"
    for start a as sr t x
    unfolding executeLoop.simps(2) by (rule returns_bind_known [OF att]) (simp add: returns_ret)
  show ?thesis unfolding Execute_def assms(3)
    by (rule returns_bind, simp del: executeLoop.simps, rule returns_bind,
        rule returns_bind_known [OF live_acquire [OF assms(1)]], rule returns_bind,
        simp add: Let_def del: executeLoop.simps,
        rule returns_bind_known [OF loop], rule returns_bind, simp add: returns_ret)
qed

text \<open>A device that answers every call, and a clock on which every timer has time to fire between two ticks.\<close>

definition live_env :: env where
  "live_env = demo_env\<lparr>clockAt := (\<lambda>t. 1 + 2 ^ 63 * int t), replyAt := (\<lambda>_ _. Inr [0, 7])\<rparr>"

lemma live_env_ok: "live live_env" "replyAt live_env t c = Inr [0, 7]" "clockAt live_env = (\<lambda>t. 1 + 2 ^ 63 * int t)"
  by (simp_all add: live_def live_env_def demo_env_def)

lemma live_env_steady: "steady (clockAt live_env)"
  by (simp add: steady_def live_env_ok(3) monoI)

lemma demo_request_valid: "ValidateRequest (Some demo_request) = None"
  using demo_client_ok(3) by (simp add: ValidateRequest_iff)

lemma live_run:
  obtains w' where "run_state (Execute live_env (Some demo_request)) w = (Some (Inr (buildResponse demo_request [0, 7])), w')"
  using live_Execute [OF live_env_ok(1,2) demo_request_valid] unfolding returns_def wp_def
  by (metis prod.collapse)

subsection \<open>Properties\<close>

text \<open>
  C12: A valid request is answered. If the request's context stays alive, the owner token and the timers
  come, the device accepts the connection and answers the call, then \<open>Execute\<close> returns the response
  built from the device's answer, whatever state the client was in: connected or not, after failures,
  with or without pacing.
\<close>

theorem live_request_answered:
  assumes "valid_request req" and "live e" and "\<And>t. replyAt e t (callOf req) = Inr results"
  shows "\<exists>w'. run_state (Execute e (Some req)) w = (Some (Inr (buildResponse req results)), w')"
proof -
  have "ValidateRequest (Some req) = None" using assms(1) by (simp add: ValidateRequest_iff)
  from live_Execute [OF assms(2,3) this] show ?thesis unfolding returns_def wp_def by (metis prod.collapse)
qed

theorem live_request_answered_witness:
  "\<exists>w'. run_state (Execute live_env (Some demo_request)) demo_world = (Some (Inr [3, 2, 0, 7]), w')"
  using live_request_answered [OF demo_client_ok(3) live_env_ok(1,2)]
  by (simp add: buildResponse_def buildReadResponse_def demo_request_def IsReadFunction_def mb_consts)

end
