(* ===== verification/Client_Session.thy ===== *)
theory Client_Session
  imports Client_Runs
begin

text \<open>
  The order in which the upstream client (\<^verbatim>\<open>internal/modbus/client.go\<close>) uses the owner
  token, the connection and the session: an acceptor reads the trace of a run and says what the
  session is doing and which calls have reached the device, and under which slave ID. Every run of
  the client is accepted.
\<close>

subsection \<open>The protocol of a session\<close>

text \<open>
  What the holder of the owner token is doing. A slave ID is selected, a request is bound to the
  connection with a timeout, its call is made, and the request is finished. The line to the device
  is down, up, or \<open>Dangling\<close> when a dial failed and its session has not been closed yet.
\<close>

datatype stage = Free | Owned | Selected byte | Bound byte | Called byte

datatype line = Down | Up | Dangling

record wire =
  stage :: stage
  line :: line
  delivered :: "(byte \<times> upstream_call) list"

fun idle :: "stage \<Rightarrow> bool" where
  "idle Owned = True"
| "idle (Selected s) = True"
| "idle _ = False"

text \<open>The timeout of a request is positive and not above the limit, unless it is the least one of 1 ns.\<close>

definition timeout_ok :: "duration \<Rightarrow> duration \<Rightarrow> bool" where
  "timeout_ok limit t \<longleftrightarrow> 0 <s t \<and> (t \<le>s limit \<or> t = 1)"

fun advance :: "duration \<Rightarrow> event \<Rightarrow> wire \<Rightarrow> wire option" where
  "advance limit Acquired u = (if stage u = Free then Some (u\<lparr>stage := Owned\<rparr>) else None)"
| "advance limit Released u = (if idle (stage u) \<and> line u \<noteq> Dangling then Some (u\<lparr>stage := Free\<rparr>) else None)"
| "advance limit (Dialed b) u =
     (if idle (stage u) \<and> line u = Down then Some (u\<lparr>stage := Owned, line := (if b then Up else Dangling)\<rparr>) else None)"
| "advance limit SessionClosed u =
     (if idle (stage u) \<and> line u \<noteq> Down then Some (u\<lparr>stage := Owned, line := Down\<rparr>) else None)"
| "advance limit (SlaveSet s) u = (if idle (stage u) \<and> line u = Up then Some (u\<lparr>stage := Selected s\<rparr>) else None)"
| "advance limit (Begun t) u = (case stage u of
     Selected s \<Rightarrow> if timeout_ok limit t then Some (u\<lparr>stage := Bound s\<rparr>) else None
   | _ \<Rightarrow> None)"
| "advance limit (Sent i t c) u = (case stage u of
     Bound s \<Rightarrow> Some (u\<lparr>stage := Called s, delivered := (s, c) # delivered u\<rparr>)
   | _ \<Rightarrow> None)"
| "advance limit Finished u = (case stage u of
     Bound s \<Rightarrow> Some (u\<lparr>stage := Owned\<rparr>)
   | Called s \<Rightarrow> Some (u\<lparr>stage := Owned\<rparr>)
   | _ \<Rightarrow> None)"
| "advance limit NilSession u = None"

text \<open>The trace is kept newest event first.\<close>

fun wire_of :: "duration \<Rightarrow> event list \<Rightarrow> wire option" where
  "wire_of limit [] = Some \<lparr>stage = Free, line = Down, delivered = []\<rparr>"
| "wire_of limit (ev # tr) = (case wire_of limit tr of None \<Rightarrow> None | Some u \<Rightarrow> advance limit ev u)"

lemma advance_delivered: "advance limit ev u = Some u' \<Longrightarrow>
    length (delivered u') = length (delivered u) + (if is_sent ev then 1 else 0)"
  by (cases ev) (auto split: if_splits stage.splits)

lemma wire_sends: "wire_of limit tr = Some u \<Longrightarrow> length (delivered u) = sends tr"
  by (induction tr arbitrary: u)
    (auto simp: sends_def dest!: advance_delivered split: option.splits if_splits)

subsection \<open>The protocol and the client\<close>

text \<open>
  \<open>stands limit D P w\<close>: the trace of \<open>w\<close> is accepted, the session is in a stage that satisfies \<open>P\<close>,
  the line is up exactly if the client has a session, and the delivered calls are as \<open>D\<close> says.
\<close>

definition stands :: "duration \<Rightarrow> ((byte \<times> upstream_call) list \<Rightarrow> bool) \<Rightarrow> (stage \<Rightarrow> bool) \<Rightarrow> world \<Rightarrow> bool" where
  "stands limit D P w \<longleftrightarrow> attemptTimeout (wclient w) = limit \<and> (\<exists>u. wire_of limit (wtrace w) = Some u \<and>
     P (stage u) \<and> line u = (if session (wclient w) = None then Down else Up) \<and> D (delivered u))"

abbreviation linked :: "duration \<Rightarrow> ((byte \<times> upstream_call) list \<Rightarrow> bool) \<Rightarrow> (stage \<Rightarrow> bool) \<Rightarrow> world \<Rightarrow> bool" where
  "linked limit D P w \<equiv> stands limit D P w \<and> session (wclient w) \<noteq> None"

abbreviation ready :: "duration \<Rightarrow> ((byte \<times> upstream_call) list \<Rightarrow> bool) \<Rightarrow> world \<Rightarrow> bool" where
  "ready limit D \<equiv> linked limit D idle"

text \<open>Actions that leave the trace and the session alone.\<close>

definition silent :: "world \<Rightarrow> world \<Rightarrow> bool" where
  "silent w w' \<longleftrightarrow> wtrace w' = wtrace w \<and> session (wclient w') = session (wclient w) \<and>
     attemptTimeout (wclient w') = attemptTimeout (wclient w)"

interpretation qu: guarantee silent
  by unfold_locales (simp_all add: silent_def)

lemma silent_stands: "silent w w' \<Longrightarrow> stands limit D P w' = stands limit D P w"
  by (simp add: silent_def stands_def)

lemma silent_actions:
  "keeps silent (log_line r)" "keeps silent (recordFirstFailure e)" "keeps silent recordRetry"
  "keeps silent (recordSuccess a now)" "keeps silent (finalError x m t)" "keeps silent (logUnlessClosed msg err)"
  "keeps silent (change (\<lambda>c. c\<lparr>nextRequestAt := at\<rparr>))"
  by (auto simp: keeps_def wp_simps silent_def recordFirstFailure_def recordRetry_def recordSuccess_def
      finalError_def Let_def logUnlessClosed_def split: option.split)

lemmas silent_intros = qu.keeps_intros qu.keeps_reading silent_actions

lemma silent_parts:
  "keeps silent (waitForRequestSlot e)" "keeps silent (fail req x m t)"
  unfolding waitForRequestSlot_def fail_def Let_def by (intro silent_intros)+

lemma silent_phases:
  "keeps silent (slotPhase e req start a sr t)" "keeps silent (checkContext e req start a t)"
  "keeps silent (succeed e req start a t rc resp)"
  unfolding slotPhase_def checkContext_def succeed_def Let_def by (intro silent_intros silent_parts)+

lemma triple_silent_stands:
  assumes "keeps silent m" and "\<And>a. triple (stands limit D P) (f a) T"
  shows "triple (stands limit D P) (State_Monad.bind m f) T"
  by (rule triple_seq [OF _ assms(2)]) (use assms(1) in \<open>auto simp: triple_def silent_stands intro: wp_keeps\<close>)

lemma triple_silent_linked:
  assumes "keeps silent m" and "\<And>a. triple (linked limit D P) (f a) T"
  shows "triple (linked limit D P) (State_Monad.bind m f) T"
proof (rule triple_seq [OF _ assms(2)])
  show "triple (linked limit D P) m (\<lambda>_. linked limit D P)" unfolding triple_def
    by (intro allI impI, rule wp_keeps [OF assms(1)]) (simp add: silent_stands, simp add: silent_def)
qed

lemmas triple_silent = triple_silent_stands triple_silent_linked

lemmas session_intros = triple_if triple_option triple_sum triple_silent silent_intros silent_parts silent_phases

subsection \<open>Connecting and disconnecting\<close>

lemma stands_connectLocked:
  "triple (stands limit D idle) (connectLocked e)
     (\<lambda>r w. stands limit D idle w \<and> (r = None \<longrightarrow> session (wclient w) \<noteq> None))"
  unfolding triple_def
  by (auto simp: connectLocked_def wp_simps stands_def intro!: wp_closeSession split: option.split)

lemma stands_disconnectLocked: "triple (stands limit D idle) (disconnectLocked e) (\<lambda>_. stands limit D idle)"
  unfolding triple_def
  by (auto simp: disconnectLocked_def wp_simps stands_def intro!: wp_closeSession split: option.split)

text \<open>\<open>Free\<close> stages are left by the owner token only.\<close>

abbreviation at_rest :: "duration \<Rightarrow> ((byte \<times> upstream_call) list \<Rightarrow> bool) \<Rightarrow> world \<Rightarrow> bool" where
  "at_rest limit D w \<equiv> stands limit D (\<lambda>s. s = Free) w"

lemma stands_acquire:
  "triple (at_rest limit D) (acquire e)
     (\<lambda>r. case r of None \<Rightarrow> stands limit D idle | Some x \<Rightarrow> at_rest limit D)"
  unfolding triple_def
  by (auto simp: acquire_def release_def wp_simps stands_def split: option.split wait_case.split)

lemma stands_release: "triple (stands limit D idle) release (\<lambda>_. at_rest limit D)"
  by (auto simp: triple_def release_def wp_simps stands_def split: if_splits)

lemma stands_owned:
  assumes "triple (stands limit D idle) m (\<lambda>_. stands limit D' idle)" and "\<And>l. D l \<Longrightarrow> D' l"
    and "\<And>x. triple (at_rest limit D') (g x) (\<lambda>_. at_rest limit D')"
    and "\<And>a. triple (at_rest limit D') (h a) (\<lambda>_. at_rest limit D')"
  shows "triple (at_rest limit D)
    (do { err \<leftarrow> acquire e; case err of Some x \<Rightarrow> g x | None \<Rightarrow> do { r \<leftarrow> m; release; h r } })
    (\<lambda>_. at_rest limit D')"
proof (rule triple_seq [OF stands_acquire])
  fix err
  have "triple (at_rest limit D) (g x) (\<lambda>_. at_rest limit D')" for x
    using assms(2,3) unfolding triple_def stands_def by blast
  moreover have "triple (stands limit D idle) (do { r \<leftarrow> m; release; h r }) (\<lambda>_. at_rest limit D')"
    by (rule triple_seq [OF assms(1)], rule triple_seq [OF stands_release assms(4)])
  ultimately show "triple (case err of None \<Rightarrow> stands limit D idle | Some x \<Rightarrow> at_rest limit D)
      (case err of Some x \<Rightarrow> g x | None \<Rightarrow> do { r \<leftarrow> m; release; h r }) (\<lambda>_. at_rest limit D')"
    by (cases err) simp_all
qed

lemma stands_Connect: "triple (at_rest limit D) (Connect e) (\<lambda>_. at_rest limit D)"
  unfolding Connect_def
proof (rule stands_owned)
  show "triple (stands limit D idle) (connectLocked e) (\<lambda>_. stands limit D idle)"
    by (rule triple_weaken [OF stands_connectLocked]) blast+
qed (simp_all add: triple_ret)

lemma stands_CloseClient: "triple (at_rest limit D) (CloseClient e) (\<lambda>_. at_rest limit D)"
  unfolding CloseClient_def
proof (rule triple_seq [OF stands_acquire], goal_cases)
  case (1 err)
  then show ?case
    by (cases err) (auto simp: triple_def wp_simps release_def stands_def split: option.split)
qed

subsection \<open>The phases of an attempt\<close>

definition phase_ends :: "duration \<Rightarrow> ((byte \<times> upstream_call) list \<Rightarrow> bool) \<Rightarrow> (world \<Rightarrow> bool) \<Rightarrow> 'a + 'b \<Rightarrow> world \<Rightarrow> bool" where
  "phase_ends limit D T r = (case r of Inl x \<Rightarrow> stands limit D idle | Inr y \<Rightarrow> T)"

lemma triple_connect:
  assumes "triple (ready limit D) (f None) T" and "\<And>x. triple (stands limit D idle) (f (Some x)) T"
  shows "triple (stands limit D idle) (State_Monad.bind (connectLocked e) f) T"
proof (rule triple_seq [OF stands_connectLocked])
  fix r show "triple (\<lambda>w. stands limit D idle w \<and> (r = None \<longrightarrow> session (wclient w) \<noteq> None)) (f r) T"
    using assms by (cases r) simp_all
qed

lemma triple_disconnect:
  assumes "\<And>a. triple (stands limit D idle) (f a) T"
  shows "triple (stands limit D idle) (State_Monad.bind (disconnectLocked e) f) T"
    and "triple (stands limit D idle) (State_Monad.bind (if b then disconnectLocked e else ret ()) f) T"
  by (rule triple_seq [OF _ assms], simp add: stands_disconnectLocked triple_ret)+

lemma stands_connectPhase:
  "triple (stands limit D idle) (connectPhase e req start a sr t) (phase_ends limit D (ready limit D))"
  unfolding connectPhase_def
proof (rule triple_look, goal_cases)
  case (1 sid)
  show ?case
  proof (cases "sid = None")
    case False
    then show ?thesis by (auto simp: triple_def wp_simps phase_ends_def)
  next
    case True
    show ?thesis unfolding Let_def
      by (rule triple_weaken [where P = "stands limit D idle" and T = "phase_ends limit D (ready limit D)"],
          simp only: True not_not refl if_False simp_thms, rule triple_silent(1), rule qu.keeps_basic, rule triple_connect;
          (simp only: option.case, intro session_intros triple_ret)?; simp add: phase_ends_def)
  qed
qed

lemma stands_giveUpOrRetry: "triple (stands limit D idle) (giveUpOrRetry e req start a t x) (\<lambda>_. stands limit D idle)"
  unfolding giveUpOrRetry_def Let_def
  by (intro triple_disconnect session_intros triple_ret)

lemma stands_slotPhase: "triple (ready limit D) (slotPhase e req start a sr t) (phase_ends limit D (ready limit D))"
  unfolding slotPhase_def Let_def
  by (intro session_intros triple_ret; simp add: phase_ends_def)

lemma stands_finishRequest:
  assumes "P = (\<lambda>s. s = Bound i) \<or> P = (\<lambda>s. s = Called i)"
  shows "triple (linked limit D P) (finishRequest e msg) (\<lambda>_. ready limit D)"
  using assms unfolding triple_def
  by (auto simp: finishRequest_def wp_simps stands_def split: option.split)

lemma stands_socketTimeoutFor:
  "triple (linked limit D P) (socketTimeoutFor e) (\<lambda>t w. linked limit D P w \<and> timeout_ok limit t)"
  unfolding triple_def
  by (auto simp: socketTimeoutFor_def wp_simps stands_def timeout_ok_def word_sle_eq word_sless_alt split: option.split)

lemma stands_bind:
  "triple (linked limit D idle) (emit (SlaveSet i)) (\<lambda>_. linked limit D (\<lambda>s. s = Selected i))"
  "triple (\<lambda>w. linked limit D (\<lambda>s. s = Selected i) w \<and> timeout_ok limit t) (emit (Begun t))
     (\<lambda>_. linked limit D (\<lambda>s. s = Bound i))"
  by (auto simp: triple_def wp_simps stands_def)

lemma stands_beginPhase:
  "triple (ready limit D) (beginPhase e req start a t)
     (phase_ends limit D (linked limit D (\<lambda>s. s = Bound (SlaveID req))))"
proof -
  have selected: "stands limit D (\<lambda>s. s = Selected i) w \<Longrightarrow> stands limit D idle w" for i w
    by (auto simp: stands_def)
  show ?thesis unfolding beginPhase_def
    by (intro triple_seq [OF stands_bind(1)] triple_seq [OF stands_socketTimeoutFor] triple_seq [OF stands_bind(2)]
        triple_seq [OF stands_finishRequest] session_intros triple_ret) (auto simp: phase_ends_def selected)
qed

text \<open>The calls delivered so far may be followed by the request's own call, to the request's own slave.\<close>

definition grows :: "request \<Rightarrow> ((byte \<times> upstream_call) list \<Rightarrow> bool) \<Rightarrow> bool" where
  "grows req D \<longleftrightarrow> (\<forall>l. D l \<longrightarrow> D ((SlaveID req, callOf req) # l))"

lemma stands_executeRequest:
  "grows req D \<Longrightarrow> triple (linked limit D (\<lambda>s. s = Bound (SlaveID req))) (executeRequest e req)
     (\<lambda>_. linked limit D (\<lambda>s. s = Called (SlaveID req)))"
  by (auto simp: triple_def executeRequest_def wp_simps stands_def grows_def)

lemma stands_sendPhase:
  assumes "grows req D"
  shows "triple (linked limit D (\<lambda>s. s = Bound (SlaveID req))) (sendPhase e req start a t) (\<lambda>_. stands limit D idle)"
proof -
  have over: "triple (ready limit D) (giveUpOrRetry e req start a t x) (\<lambda>_. stands limit D idle)"
    "triple (ready limit D) (succeed e req start a t rc resp) (\<lambda>_. stands limit D idle)" for t x rc resp
    by (rule triple_weaken [OF stands_giveUpOrRetry], simp_all)
      (auto simp: triple_def silent_stands intro!: wp_keeps [OF silent_phases(3)])
  show ?thesis unfolding sendPhase_def Let_def
    by (intro triple_silent(2) [OF qu.keeps_basic(4)] triple_silent(2) [OF qu.keeps_reading(2)] triple_silent(2) [OF qu.keeps_reading(4)]
        triple_seq [OF stands_executeRequest [OF assms]] triple_seq [OF stands_finishRequest] triple_option over) (rule disjI2 refl)+
qed

lemma triple_phase_ends:
  assumes "triple P m (phase_ends limit D S)" and "\<And>x. triple (stands limit D idle) (g x) T" and "\<And>u. triple S (f u) T"
  shows "triple P (State_Monad.bind m (\<lambda>r. case r of Inl x \<Rightarrow> g x | Inr u \<Rightarrow> f u)) T"
proof (rule triple_seq [OF assms(1)])
  fix r show "triple (phase_ends limit D S r) (case r of Inl x \<Rightarrow> g x | Inr u \<Rightarrow> f u) T"
    using assms(2,3) by (cases r) (simp_all add: phase_ends_def)
qed

lemma stands_executeAttempt:
  "grows req D \<Longrightarrow> triple (stands limit D idle) (executeAttempt e req start a sr t) (\<lambda>_. stands limit D idle)"
  unfolding executeAttempt_def
  by (intro triple_phase_ends [OF stands_connectPhase] triple_phase_ends [OF stands_slotPhase]
      triple_phase_ends [OF stands_beginPhase] stands_sendPhase triple_ret)

lemma stands_executeLoop:
  "grows req D \<Longrightarrow> triple (stands limit D idle) (executeLoop e req start as sr t x) (\<lambda>_. stands limit D idle)"
proof (induction as arbitrary: sr t x)
  case Nil
  then show ?case unfolding executeLoop.simps by (intro session_intros triple_ret)
next
  case (Cons a as)
  show ?case unfolding executeLoop.simps
  proof (rule triple_seq [OF stands_executeAttempt [OF Cons.prems]])
    fix r show "triple (stands limit D idle) (case r of Finish x \<Rightarrow> ret (Some x)
        | Continue timing slotReady x \<Rightarrow> executeLoop e req start as slotReady timing (Some x)) (\<lambda>_. stands limit D idle)"
      by (cases r) (simp_all add: triple_ret Cons)
  qed
qed

lemma stands_Execute:
  assumes "grows req D"
  shows "triple (at_rest limit D) (Execute e (Some req)) (\<lambda>_. at_rest limit D)"
proof (cases "ValidateRequest (Some req)")
  case None
  have tail: "triple (case err of None \<Rightarrow> stands limit D idle | Some x \<Rightarrow> at_rest limit D)
    (do { d \<leftarrow> since e queueStart; case err of
       Some x \<Rightarrow> do { da \<leftarrow> since e start; ret (Some (Inl (requestError x 0 (f d da)))) }
     | None \<Rightarrow> do { r \<leftarrow> executeLoop e req start [1, 2] False (g d) None; release; ret r } })
    (\<lambda>_. at_rest limit D)" for err queueStart start f g
    by (cases err; simp only: option.case,
        intro triple_silent(1) [OF qu.keeps_reading(2)] triple_seq [OF stands_executeLoop [OF assms]]
          triple_seq [OF stands_release] triple_ret)
  show ?thesis using None unfolding Execute_def Let_def
    by (intro triple_silent(1) [OF qu.keeps_basic(4)], simp del: executeLoop.simps,
        intro triple_silent(1) [OF qu.keeps_basic(4)] triple_seq [OF stands_acquire] tail)
next
  case (Some x)
  then show ?thesis unfolding Execute_def by (simp, intro session_intros triple_ret)
qed

subsection \<open>Every run is accepted\<close>

lemma triple_run: "triple P m T \<Longrightarrow> P w \<Longrightarrow> run_state m w = (a, w') \<Longrightarrow> T a w'"
  by (metis triple_def wp_def fst_conv snd_conv)

lemma grows_all: "grows req (\<lambda>l. True)"
  by (simp add: grows_def)

lemma grows_own: "grows req (\<lambda>l. \<exists>n. l = replicate n (SlaveID req, callOf req) @ l0)"
  unfolding grows_def by (metis append_Cons replicate_Suc)

lemma client_reachable_at_rest: "client_reachable w \<Longrightarrow> \<exists>limit. at_rest limit (\<lambda>l. True) w"
proof (induction rule: client_reachable.induct)
  case (new_client addr attempt_timeout request_delay connect_delay t)
  show ?case by (rule exI [of _ attempt_timeout]) (simp add: stands_def NewClient_def)
next
  case (connect_client w e r w')
  then show ?case using triple_run [OF stands_Connect] by blast
next
  case (close_client w e r w')
  then show ?case using triple_run [OF stands_CloseClient] by blast
next
  case (execute_client w req e r w')
  then show ?case using triple_run [OF stands_Execute [OF grows_all]] by blast
qed

subsection \<open>Properties\<close>

text \<open>
  C3: The client keeps the protocol of the connection. In every state it can reach, the trace is
  accepted: the token is held by one operation at a time; a connection is dialled only when the last
  one has been closed, and a failed dial is closed before the token is given back; a request is bound
  to the connection only after its slave ID was selected on this connection, with a positive timeout
  of at most the attempt timeout (or the least one, 1 ns); a call is made only on an open connection
  within a bound request, once; and every bound request is finished before the connection is used for
  anything else. One more request delivers its own call to its own slave, at most twice for a read
  and once otherwise, and nothing else, and leaves the token free and the line up exactly if the
  client has a session.
\<close>

theorem session_protocol_kept:
  assumes "client_reachable w" and "valid_request req" and "ctx_ok e" and "dial_ok e"
    and "run_state (Execute e (Some req)) w = (r, w')"
  shows "\<exists>u u' n. wire_of (attemptTimeout (wclient w)) (wtrace w) = Some u \<and>
    wire_of (attemptTimeout (wclient w)) (wtrace w') = Some u' \<and>
    stage u' = Free \<and> (line u' = Up \<longleftrightarrow> session (wclient w') \<noteq> None) \<and> line u' \<noteq> Dangling \<and>
    delivered u' = replicate n (SlaveID req, callOf req) @ delivered u \<and>
    n \<le> (if IsReadFunction (FunctionCode req) then 2 else 1)"
proof -
  let ?limit = "attemptTimeout (wclient w)"
  obtain u where u: "wire_of ?limit (wtrace w) = Some u"
      "at_rest ?limit (\<lambda>l. \<exists>n. l = replicate n (SlaveID req, callOf req) @ delivered u) w"
    using client_reachable_at_rest [OF assms(1)]
    by (auto simp: stands_def intro!: exI [of _ 0])
  from triple_run [OF stands_Execute [OF grows_own] u(2) assms(5)]
  obtain u' n where u': "wire_of ?limit (wtrace w') = Some u'" "stage u' = Free"
      "line u' = (if session (wclient w') = None then Down else Up)"
      "delivered u' = replicate n (SlaveID req, callOf req) @ delivered u"
    by (auto simp: stands_def)
  have "wp (Execute e (Some req)) (executed req w) w"
    using wp_Execute [OF assms(2) _ assms(3,4)] client_reachable_ok [OF assms(1)] by (simp add: client_ok_def)
  then obtain d where "wtrace w' = d @ wtrace w" "sends d \<le> (if IsReadFunction (FunctionCode req) then 2 else 1)"
    using assms(5) by (auto simp: wp_def executed_def)
  moreover have "n + sends (wtrace w) = sends (wtrace w')"
    using wire_sends [OF u(1)] wire_sends [OF u'(1)] u'(4) by simp
  ultimately show ?thesis using u(1) u' by (auto simp: sends_def)
qed

theorem session_protocol_kept_witness:
  "\<exists>u n w'. snd (run_state (Execute demo_env (Some demo_request)) demo_world) = w' \<and>
     wire_of second (wtrace w') = Some u \<and> delivered u = replicate n (1, ReadHoldingRegisters 100 1) \<and> n \<le> 2"
proof -
  have "client_reachable demo_world" unfolding demo_world_def by (rule client_reachable.new_client)
  moreover obtain r w' where "run_state (Execute demo_env (Some demo_request)) demo_world = (r, w')"
    by (rule prod.exhaust)
  ultimately show ?thesis
    using session_protocol_kept [OF _ demo_client_ok(3,1,2)]
    by (fastforce simp: demo_world_def NewClient_def demo_request_def callOf_def IsReadFunction_def mb_consts)
qed

end
