(* ===== verification/Process_Life.thy ===== *)
theory Process_Life
  imports Lifecycle Client_Session
begin

text \<open>
  The whole life of the process: from \<^verbatim>\<open>cmd/mbproxy/main.go\<close> making the proxy, over whatever
  its goroutines do to the proxy while it runs, to the end of the shutdown. A step of the life is a
  section that the proxy's locks or the client's owner token make indivisible, so the steps cover
  every interleaving of the requests. The lemmas show that the handler's calls are such lives, and
  what holds of the upstream connection and the cache at the end.
\<close>

subsection \<open>Steps of a life\<close>

inductive proxy_life :: "world proxy \<Rightarrow> world proxy \<Rightarrow> bool" for p0 :: "world proxy" where
  life_start: "proxy_life p0 p0"
| life_run: "proxy_life p0 p \<Longrightarrow> ProxyRun e bindErr serveErr p = ((r, p'), evs) \<Longrightarrow> proxy_life p0 p'"
| life_execute: "proxy_life p0 p \<Longrightarrow> valid_request req \<Longrightarrow> ctx_ok e \<Longrightarrow> dial_ok e \<Longrightarrow>
    clientExec e req p = (r, p') \<Longrightarrow> proxy_life p0 p'"
| life_write: "proxy_life p0 p \<Longrightarrow> proxy_life p0 (bumpAndInvalidate req p)"
| life_store: "proxy_life p0 p \<Longrightarrow> storeFetched now req g data p = Returns p' \<Longrightarrow> proxy_life p0 p'"
| life_cleanup: "proxy_life p0 p \<Longrightarrow> proxy_life p0 (p\<lparr>pcache := cleanupOnce clock (pcache p)\<rparr>)"

lemma proxy_life_trans: "proxy_life q r \<Longrightarrow> proxy_life p q \<Longrightarrow> proxy_life p r"
  by (induction rule: proxy_life.induct) (auto intro: proxy_life.intros)

text \<open>
  No step closes the cache or takes the client out of its reachable states, and between the steps
  the owner token is free and the session protocol with the configured attempt timeout is kept.
\<close>

definition alive :: "duration \<Rightarrow> world proxy \<Rightarrow> bool" where
  "alive limit p \<longleftrightarrow> client_reachable (upstream p) \<and> \<not> done_closed (pcache p) \<and> at_rest limit (\<lambda>l. True) (upstream p)"

lemma done_closed_kept [simp]:
  "done_closed (invalidateCache req c) = done_closed c" "done_closed (SetRange now c s f a vs) = done_closed c"
  "done_closed (cleanupOnce clock c) = done_closed c"
  by (simp_all add: invalidateCache_def readFuncs_def SetRange_def cleanupOnce_def)

lemma storeFetched_kept:
  assumes "storeFetched now req g data p = Returns p'"
  shows "upstream p' = upstream p" and "done_closed (pcache p') = done_closed (pcache p)"
  using assms by (auto simp: storeFetched_def split: go.splits option.splits if_splits)

lemma ProxyRun_kept: "ProxyRun e bindErr serveErr p = ((r, p'), evs) \<Longrightarrow>
    pcache p' = pcache p \<and> (upstream p' = upstream p \<or> upstream p' = snd (run_state (Connect e) (upstream p)))"
  by (auto simp: ProxyRun_def ServerListen_def Let_def split: prod.splits option.splits)

lemma clientExec_upstream: "clientExec e req p = (r, p') \<Longrightarrow>
    pcache p' = pcache p \<and> upstream p' = snd (run_state (Execute e (Some req)) (upstream p))"
  by (auto simp: clientExec_def split: prod.splits option.splits)

lemma at_rest_operations:
  assumes "at_rest limit (\<lambda>l. True) w"
  shows "at_rest limit (\<lambda>l. True) (snd (run_state (Connect e) w))"
    and "at_rest limit (\<lambda>l. True) (snd (run_state (CloseClient e) w))"
    and "at_rest limit (\<lambda>l. True) (snd (run_state (Execute e (Some req)) w))"
  using assms stands_Connect stands_CloseClient stands_Execute [OF grows_all]
  by (simp_all add: triple_def wp_def)

lemma alive_life:
  assumes "proxy_life p0 p" and "alive limit p0"
  shows "alive limit p"
  using assms
proof (induction rule: proxy_life.induct)
  case (life_run p e bindErr serveErr r p' evs)
  then show ?case using ProxyRun_reachable [of p e bindErr serveErr] ProxyRun_kept [OF life_run(2)] at_rest_operations(1)
    by (auto simp: alive_def)
next
  case (life_execute p req e r p')
  then have "client_reachable (upstream p')" using clientExec_reachable [of p req e] by (simp add: alive_def)
  then show ?case using life_execute clientExec_upstream [OF life_execute(5)] at_rest_operations(3)
    by (simp add: alive_def)
next
  case (life_store p now req g data p')
  then show ?case using storeFetched_kept [OF life_store(2)] by (simp add: alive_def)
qed (auto simp: alive_def bumpAndInvalidate_def)

lemma alive_start: "alive (AttemptTimeout cfg) (fst (NewProxy cfg (newWorld cfg)))"
  using newWorld_reachable [of cfg]
  by (simp add: alive_def NewProxy_def NewCache_def stands_def newWorld_def NewClient_def)

subsection \<open>A call of the handler is a life\<close>

lemma fetch_life:
  assumes "valid_request req" and "ctx_ok e" and "dial_ok e"
    and "snd (fetchAndStore (clientExec e) o1 req g (Returns p)) = Returns p'"
  shows "proxy_life p p'"
proof -
  obtain r q where x: "clientExec e req p = (r, q)" by (cases "clientExec e req p")
  have q: "proxy_life p q" using life_execute [OF life_start assms(1-3) x] .
  show ?thesis using assms(4) x q by (cases r) (auto simp: fetchAndStore_def intro: life_store)
qed

lemma handler_life:
  assumes "ctx_ok e" and "dial_ok e" and "\<And>q. meanwhile o1 q = q"
    and "HandleRequest (clientExec e) o1 reqp p = Some (Returns (r, p'))"
  shows "proxy_life p p'"
proof (cases "\<exists>req. reqp = Some req \<and> valid_request req")
  case True
  then obtain req where req: "reqp = Some req" "valid_request req" by blast
  consider "IsWriteFunction (FunctionCode req)" | "IsReadFunction (FunctionCode req)" "\<not> IsWriteFunction (FunctionCode req)"
    | "\<not> IsReadFunction (FunctionCode req)" "\<not> IsWriteFunction (FunctionCode req)" by blast
  then show ?thesis
  proof cases
    case 1
    obtain x q where x: "clientExec e req (bumpAndInvalidate req p) = (x, q)"
      by (cases "clientExec e req (bumpAndInvalidate req p)")
    have "proxy_life p (bumpAndInvalidate req q)"
      using life_write [OF life_execute [OF life_write [OF life_start] req(2) assms(1,2) x]] .
    then show ?thesis using assms(4) x 1
      by (auto simp: req(1) HandleRequest_write [OF req(2)] handleWrite_def life_start split: readOnlyMode.splits)
  next
    case 2
    have "proxy_life p q" if "CoalesceWithStatus (iterations o1) False 0
        (fetchAndStore (clientExec e) o1 req (writeGeneration p)) (Returns p) = Some (x, Returns q)" for x q
    proof -
      from CoalesceWithStatus_state [of _ _ _ _ _ "fst x" "snd x"] that
      have "Returns q = Returns p \<or> Returns q = snd (fetchAndStore (clientExec e) o1 req (writeGeneration p) (Returns p))"
        by fastforce
      then show ?thesis using fetch_life [OF req(2) assms(1,2), of o1 "writeGeneration p" p q] life_start [of p] by auto
    qed
    then show ?thesis using assms(3,4)
      by (auto simp: req(1) HandleRequest_read [OF req(2) 2(1)] handleRead_def Let_def map_go_Returns life_start
          split: option.splits prod.splits go.splits sum.splits if_splits)
  next
    case 3
    then show ?thesis using assms(4) life_execute [OF life_start req(2) assms(1,2)]
      by (auto simp: req(1) HandleRequest_valid [OF req(2)] handlePassthrough_def)
  qed
next
  case False
  then have "ValidateRequest reqp \<noteq> None"
    using ValidateRequest_iff by (cases reqp) (auto simp: ValidateRequest_def)
  then show ?thesis using assms(4) by (auto simp: HandleRequest_def life_start split: option.splits)
qed

subsection \<open>The end\<close>

lemma mainShutdown_upstream:
  assumes "\<not> done_closed (pcache p)"
  shows "map_option upstream (finalProxy (mainShutdown obs cfg evs p)) =
    Some (snd (run_state (CloseClient (background obs)) (upstream p)))"
  using assms
  by (auto simp: mainShutdown_def ProxyShutdown_def CloseCache_def exit_with_def Let_def split: prod.splits option.splits)

lemma demo_exit: "exitCode (main demo_observed) = Returns 0"
proof -
  obtain cfg0 evs0 p0 where "main demo_observed = mainShutdown demo_observed cfg0 evs0 p0" using demo_main_waits by blast
  with mainShutdown_events [of demo_observed cfg0 evs0 p0]
  have "\<exists>b. AwaitedConnections b \<in> set (events (main demo_observed))" by auto
  with main_cases [OF demo_observed_ok(2)] demo_observed_ok(3)
  obtain cfg evs where m: "main demo_observed = mainShutdown demo_observed cfg evs (fst (NewProxy cfg (newWorld cfg)))"
    by auto
  have "\<not> done_closed (pcache (fst (NewProxy cfg (newWorld cfg))))" by (simp add: NewProxy_def NewCache_def)
  moreover have "session (wclient (upstream (fst (NewProxy cfg (newWorld cfg))))) = None"
    by (simp add: NewProxy_def newWorld_def NewClient_def)
  ultimately obtain p' evs' where "ProxyShutdown (background demo_observed) (connectionsEnded demo_observed)
      (ShutdownTimeout cfg) (fst (NewProxy cfg (newWorld cfg))) = (Returns (None, p'), evs')"
    using ProxyShutdown_returns [OF demo_observed_ok(1)] by metis
  then show ?thesis unfolding m by (simp add: mainShutdown_def exit_with_def Let_def)
qed

subsection \<open>Properties\<close>



end
