(* ===== verification/Proxy_Coherence.thy ===== *)
theory Proxy_Coherence
  imports Proxy_Handler
begin

text \<open>
  The cache under concurrency. Any number of requests run the handler of
  \<^verbatim>\<open>internal/proxy/proxy.go\<close> over one proxy and one device; a step is a section of
  \<open>handleRead\<close> or \<open>handleWrite\<close> between two points where another request can run (each holds
  the cache state lock for its whole length), or something the device does. The theory shows that
  the generation check and the double invalidation give read-your-writes: what a client is given
  is never older than the last write that was answered before the client asked.
\<close>

subsection \<open>The device and the requests\<close>

text \<open>
  The device has a version per slave and address, which grows with every change; \<open>dval s f a v\<close>
  is what function \<open>f\<close> reads there in version \<open>v\<close>. A write through the proxy makes a new version of
  its addresses, and so may anything else.

  A request that has looked at the cache remembers \<open>floor\<close>, the floor of the moment it did so. A
  missed read has read the write generation \<open>g\<close>; \<open>n\<close> counts the generations without wrapping
  around. A sampled read holds the response of the device and the versions it was made of, or
  \<open>None\<close> if the response is not one the code can decompose.
\<close>

type_synonym versions = "byte \<Rightarrow> u16 \<Rightarrow> nat"

datatype task =
    Waiting
  | Missed request u64 nat versions
  | Sampled request u64 nat versions bytes "nat list option"
  | Answered request versions bytes "nat list option"
  | Failed
  | Writing request

text \<open>
  \<open>px\<close> is the proxy; the rest is the device and the record of the run: \<open>gens\<close> counts the write
  generations, \<open>flo\<close> holds the version of each address when the last write to it was answered,
  \<open>floAt n\<close> is \<open>flo\<close> in generation \<open>n\<close>, \<open>stamp\<close> is the version a cached value was read in, and
  \<open>fetched\<close> holds the fetches that coalesced readers may share.
\<close>

record system =
  px :: "unit proxy"
  ver :: versions
  tasks :: "nat \<Rightarrow> task"
  gens :: nat
  flo :: versions
  floAt :: "nat \<Rightarrow> versions"
  stamp :: "byte \<Rightarrow> byte \<Rightarrow> u16 \<Rightarrow> nat"
  fetched :: "(string \<times> bytes \<times> nat list option) set"

definition covers :: "request \<Rightarrow> byte \<Rightarrow> u16 \<Rightarrow> bool" where
  "covers req s a \<longleftrightarrow> s = SlaveID req \<and> in_range (Address req) (unat (Quantity req)) a"

text \<open>The versions and the values of a read's range.\<close>

definition range_of :: "(u16 \<Rightarrow> 'a) \<Rightarrow> request \<Rightarrow> 'a list" where
  "range_of f req = map (\<lambda>j. f (Address req + of_nat j)) [0..<unat (Quantity req)]"

definition values_at :: "(byte \<Rightarrow> byte \<Rightarrow> u16 \<Rightarrow> nat \<Rightarrow> bytes) \<Rightarrow> request \<Rightarrow> nat list \<Rightarrow> bytes list" where
  "values_at dval req st =
     map (\<lambda>j. dval (SlaveID req) (FunctionCode req) (Address req + of_nat j) (st ! j)) [0..<unat (Quantity req)]"

text \<open>The versions of the cached values after the response of a read was handled.\<close>

definition restamp :: "system \<Rightarrow> request \<Rightarrow> u64 \<Rightarrow> nat list option \<Rightarrow> byte \<Rightarrow> byte \<Rightarrow> u16 \<Rightarrow> nat" where
  "restamp y req g st = (case st of
     Some vs \<Rightarrow> if writeGeneration (px y) = g
       then (\<lambda>s f a. if covers req s a \<and> f = FunctionCode req then vs ! unat (a - Address req) else stamp y s f a)
       else stamp y
   | None \<Rightarrow> stamp y)"

subsection \<open>Steps\<close>

inductive pstep :: "(byte \<Rightarrow> byte \<Rightarrow> u16 \<Rightarrow> nat \<Rightarrow> bytes) \<Rightarrow> system \<Rightarrow> system \<Rightarrow> bool" for dval where
  hit: "tasks y p = Waiting \<Longrightarrow> valid_request req \<Longrightarrow> IsReadFunction (FunctionCode req) \<Longrightarrow>
    GetRange clock (pcache (px y)) (SlaveID req) (FunctionCode req) (Address req) (Quantity req) = Some vs \<Longrightarrow>
    sliceOf (assembleResponse (FunctionCode req) (Quantity req) vs) = Returns data \<Longrightarrow>
    pstep dval y (y\<lparr>tasks := (tasks y)(p := Answered req (flo y) data
      (Some (range_of (stamp y (SlaveID req) (FunctionCode req)) req)))\<rparr>)"
| miss: "tasks y p = Waiting \<Longrightarrow> valid_request req \<Longrightarrow> IsReadFunction (FunctionCode req) \<Longrightarrow>
    GetRange clock (pcache (px y)) (SlaveID req) (FunctionCode req) (Address req) (Quantity req) = None \<Longrightarrow>
    pstep dval y (y\<lparr>tasks := (tasks y)(p := Missed req (writeGeneration (px y)) (gens y) (flo y))\<rparr>)"
| sample: "tasks y p = Missed req g n floor \<Longrightarrow> st = range_of (ver y (SlaveID req)) req \<Longrightarrow>
    decomposeResponse (FunctionCode req) (Quantity req) data = Returns (Some (values_at dval req st)) \<Longrightarrow>
    pstep dval y (y\<lparr>tasks := (tasks y)(p := Sampled req g n floor data (Some st))\<rparr>)"
| garbled: "tasks y p = Missed req g n floor \<Longrightarrow>
    decomposeResponse (FunctionCode req) (Quantity req) data = Returns None \<Longrightarrow>
    pstep dval y (y\<lparr>tasks := (tasks y)(p := Sampled req g n floor data None)\<rparr>)"
| store: "tasks y p = Sampled req g n floor data st \<Longrightarrow> storeFetched now req g data (px y) = Returns q \<Longrightarrow>
    pstep dval y (y\<lparr>tasks := (tasks y)(p := Answered req floor data st), px := q,
      stamp := restamp y req g st, fetched := insert (coalesceKey g req, data, st) (fetched y)\<rparr>)"
| join: "tasks y p = Missed req g n floor \<Longrightarrow> (coalesceKey g req, data, st) \<in> fetched y \<Longrightarrow>
    pstep dval y (y\<lparr>tasks := (tasks y)(p := Answered req floor data st)\<rparr>)"
| stale: "tasks y p = Missed req g n floor \<Longrightarrow> CacheServeStale (pcfg (px y)) \<Longrightarrow>
    GetRangeStale (pcache (px y)) (SlaveID req) (FunctionCode req) (Address req) (Quantity req) = Some vs \<Longrightarrow>
    sliceOf (assembleResponse (FunctionCode req) (Quantity req) vs) = Returns data \<Longrightarrow>
    pstep dval y (y\<lparr>tasks := (tasks y)(p := Answered req floor data
      (Some (range_of (stamp y (SlaveID req) (FunctionCode req)) req)))\<rparr>)"
| fail: "tasks y p = Missed req g n floor \<Longrightarrow> pstep dval y (y\<lparr>tasks := (tasks y)(p := Failed)\<rparr>)"
| expire: "tasks y p = Answered req floor data st \<Longrightarrow> pstep dval y (y\<lparr>tasks := (tasks y)(p := Failed)\<rparr>)"
| write_begin: "tasks y p = Waiting \<Longrightarrow> valid_request req \<Longrightarrow> IsWriteFunction (FunctionCode req) \<Longrightarrow>
    ReadOnly (pcfg (px y)) = ReadOnlyOff \<Longrightarrow>
    pstep dval y (y\<lparr>tasks := (tasks y)(p := Writing req), px := bumpAndInvalidate req (px y),
      gens := Suc (gens y), floAt := (floAt y)(Suc (gens y) := flo y)\<rparr>)"
| device_write: "tasks y p = Writing req \<Longrightarrow>
    pstep dval y (y\<lparr>ver := (\<lambda>s a. if covers req s a then Suc (ver y s a) else ver y s a)\<rparr>)"
| write_end: "tasks y p = Writing req \<Longrightarrow>
    flo' = (\<lambda>s a. if covers req s a then ver y s a else flo y s a) \<Longrightarrow>
    pstep dval y (y\<lparr>tasks := (tasks y)(p := Waiting), px := bumpAndInvalidate req (px y),
      gens := Suc (gens y), flo := flo', floAt := (floAt y)(Suc (gens y) := flo')\<rparr>)"
| device_change: "pstep dval y (y\<lparr>ver := (\<lambda>s a. ver y s a + d s a)\<rparr>)"
| cleanup: "pstep dval y (y\<lparr>px := (px y)\<lparr>pcache := cleanupOnce clock1 (pcache (px y))\<rparr>\<rparr>)"
| finish: "tasks y p = Answered req floor data st \<or> tasks y p = Failed \<Longrightarrow>
    pstep dval y (y\<lparr>tasks := (tasks y)(p := Waiting)\<rparr>)"

definition pinit :: "config \<Rightarrow> system" where
  "pinit cfg = \<lparr>px = fst (NewProxy cfg ()), ver = (\<lambda>_ _. 0), tasks = (\<lambda>_. Waiting), gens = 0,
     flo = (\<lambda>_ _. 0), floAt = (\<lambda>_ _ _. 0), stamp = (\<lambda>_ _ _. 0), fetched = {}\<rparr>"

inductive preachable :: "(byte \<Rightarrow> byte \<Rightarrow> u16 \<Rightarrow> nat \<Rightarrow> bytes) \<Rightarrow> system \<Rightarrow> bool" for dval where
  start: "preachable dval (pinit cfg)"
| step: "preachable dval y \<Longrightarrow> pstep dval y z \<Longrightarrow> preachable dval z"

subsection \<open>The invariant\<close>

text \<open>A response that shows, at each address of the read, the device in a version not before the floor.\<close>

definition current :: "(byte \<Rightarrow> byte \<Rightarrow> u16 \<Rightarrow> nat \<Rightarrow> bytes) \<Rightarrow> request \<Rightarrow> versions \<Rightarrow> bytes \<Rightarrow> nat list \<Rightarrow> bool" where
  "current dval req floor data st \<longleftrightarrow>
     length st = unat (Quantity req) \<and>
     decomposeResponse (FunctionCode req) (Quantity req) data = Returns (Some (values_at dval req st)) \<and>
     (\<forall>j < unat (Quantity req). floor (SlaveID req) (Address req + of_nat j) \<le> st ! j)"

text \<open>An answer is current, or it is a response of the device that the code could not decompose.\<close>

definition answer_ok :: "(byte \<Rightarrow> byte \<Rightarrow> u16 \<Rightarrow> nat \<Rightarrow> bytes) \<Rightarrow> request \<Rightarrow> versions \<Rightarrow> bytes \<Rightarrow> nat list option \<Rightarrow> bool" where
  "answer_ok dval req floor data st = (case st of
     None \<Rightarrow> decomposeResponse (FunctionCode req) (Quantity req) data = Returns None
   | Some vs \<Rightarrow> current dval req floor data vs)"

definition device_inv :: "system \<Rightarrow> bool" where
  "device_inv y \<longleftrightarrow> writeGeneration (px y) = of_nat (gens y) \<and> floAt y (gens y) = flo y \<and>
     (\<forall>s a. flo y s a \<le> ver y s a) \<and> (\<forall>n s a. n \<le> gens y \<longrightarrow> floAt y n s a \<le> flo y s a)"

definition cache_inv :: "(byte \<Rightarrow> byte \<Rightarrow> u16 \<Rightarrow> nat \<Rightarrow> bytes) \<Rightarrow> system \<Rightarrow> bool" where
  "cache_inv dval y \<longleftrightarrow> (\<forall>s f a e. slot (pcache (px y)) s f a = Some e \<longrightarrow> IsReadFunction f \<longrightarrow>
     flo y s a \<le> stamp y s f a \<and> entData e = dval s f a (stamp y s f a) \<and> wf_value f (dval s f a (stamp y s f a)))"

definition task_ok :: "(byte \<Rightarrow> byte \<Rightarrow> u16 \<Rightarrow> nat \<Rightarrow> bytes) \<Rightarrow> system \<Rightarrow> task \<Rightarrow> bool" where
  "task_ok dval y t = (case t of
     Missed req g n floor \<Rightarrow> valid_request req \<and> IsReadFunction (FunctionCode req) \<and>
       g = of_nat n \<and> n \<le> gens y \<and> floor = floAt y n
   | Sampled req g n floor data st \<Rightarrow> valid_request req \<and> IsReadFunction (FunctionCode req) \<and>
       g = of_nat n \<and> n \<le> gens y \<and> floor = floAt y n \<and> answer_ok dval req floor data st
   | Answered req floor data st \<Rightarrow> answer_ok dval req floor data st
   | _ \<Rightarrow> True)"

lemma task_ok_simps [simp]:
  "task_ok dval y Waiting" "task_ok dval y Failed" "task_ok dval y (Writing req)"
  "task_ok dval y (Answered req floor data st) \<longleftrightarrow> answer_ok dval req floor data st"
  "task_ok dval y (Missed req g n floor) \<longleftrightarrow> valid_request req \<and> IsReadFunction (FunctionCode req) \<and>
     g = of_nat n \<and> n \<le> gens y \<and> floor = floAt y n"
  "task_ok dval y (Sampled req g n floor data st) \<longleftrightarrow> valid_request req \<and> IsReadFunction (FunctionCode req) \<and>
     g = of_nat n \<and> n \<le> gens y \<and> floor = floAt y n \<and> answer_ok dval req floor data st"
  by (simp_all only: task_ok_def task.case)

definition fetched_inv :: "(byte \<Rightarrow> byte \<Rightarrow> u16 \<Rightarrow> nat \<Rightarrow> bytes) \<Rightarrow> system \<Rightarrow> bool" where
  "fetched_inv dval y \<longleftrightarrow> (\<forall>k data st. (k, data, st) \<in> fetched y \<longrightarrow>
     (\<exists>req n. k = coalesceKey (of_nat n) req \<and> n \<le> gens y \<and> answer_ok dval req (floAt y n) data st))"

definition coherent :: "(byte \<Rightarrow> byte \<Rightarrow> u16 \<Rightarrow> nat \<Rightarrow> bytes) \<Rightarrow> system \<Rightarrow> bool" where
  "coherent dval y \<longleftrightarrow> device_inv y \<and> cache_inv dval y \<and> (\<forall>p. task_ok dval y (tasks y p)) \<and> fetched_inv dval y"

lemma gens_mono: "pstep dval y z \<Longrightarrow> gens y \<le> gens z"
  by (induction rule: pstep.induct) auto

text \<open>Below the wrap-around, equal generations are the same generation.\<close>

lemma gen_inj: "m < 2 ^ 64 \<Longrightarrow> n < 2 ^ 64 \<Longrightarrow> (of_nat m :: u64) = of_nat n \<longleftrightarrow> m = n"
  by (simp add: word_unat_eq_iff unat_of_nat)

subsection \<open>Every step keeps the invariant\<close>

lemma current_mono:
  "current dval req floor data st \<Longrightarrow> (\<And>s a. floor' s a \<le> floor s a) \<Longrightarrow> current dval req floor' data st"
  unfolding current_def by (meson le_trans)

lemma answer_same_range:
  assumes "answer_ok dval req floor data st" and "SlaveID req = SlaveID req'" "FunctionCode req = FunctionCode req'"
    "Address req = Address req'" "Quantity req = Quantity req'"
  shows "answer_ok dval req' floor data st"
  using assms by (simp add: answer_ok_def current_def values_at_def split: option.splits)

lemma length_range_of [simp]: "length (range_of f req) = unat (Quantity req)"
  by (simp add: range_of_def)

lemma nth_range_of: "j < unat (Quantity req) \<Longrightarrow> range_of f req ! j = f (Address req + of_nat j)"
  by (simp add: range_of_def)

lemma length_values_at [simp]: "length (values_at dval req st) = unat (Quantity req)"
  by (simp add: values_at_def)

lemma nth_values_at: "j < unat (Quantity req) \<Longrightarrow>
    values_at dval req st ! j = dval (SlaveID req) (FunctionCode req) (Address req + of_nat j) (st ! j)"
  by (simp add: values_at_def)

text \<open>What is assembled from the cache is current.\<close>

lemma cached_current:
  assumes inv: "cache_inv dval y" and req: "valid_request req" "IsReadFunction (FunctionCode req)"
    and vs: "GetRangeStale (pcache (px y)) (SlaveID req) (FunctionCode req) (Address req) (Quantity req) = Some vs"
    and data: "sliceOf (assembleResponse (FunctionCode req) (Quantity req) vs) = Returns data"
  shows "current dval req (flo y) data (range_of (stamp y (SlaveID req) (FunctionCode req)) req)"
proof -
  let ?st = "range_of (stamp y (SlaveID req) (FunctionCode req)) req"
  have wf: "cache_wf (pcache (px y))" using inv unfolding cache_inv_def cache_wf_def by metis
  have dec: "decomposeResponse (FunctionCode req) (Quantity req) data = Returns (Some vs)"
    using assemble_from_cache [OF wf req vs] data by simp
  have at: "flo y (SlaveID req) (Address req + of_nat j) \<le> ?st ! j \<and>
      vs ! j = dval (SlaveID req) (FunctionCode req) (Address req + of_nat j) (?st ! j)"
    if "j < unat (Quantity req)" for j
    using that vs inv req(2) unfolding GetRangeStale_iff cache_inv_def by (force simp: nth_range_of)
  have "vs = values_at dval req ?st"
    by (rule nth_equalityI) (use at vs in \<open>auto simp: nth_values_at GetRangeStale_iff\<close>)
  with dec at show ?thesis by (simp add: current_def)
qed

text \<open>Handling a response changes the cache only in the generation it was asked for.\<close>

lemma storeFetched_generation [simp]: "storeFetched now req g data q = Returns q' \<Longrightarrow> writeGeneration q' = writeGeneration q"
  by (auto simp: storeFetched_def split: go.splits option.splits if_splits)

lemma store_effect:
  assumes "answer_ok dval req floor data st" and "storeFetched now req g data (px y) = Returns q"
  obtains (unchanged) "q = px y" "restamp y req g st = stamp y"
  | (stored) vs where "st = Some vs" "current dval req floor data vs" "writeGeneration (px y) = g"
      "q = (px y)\<lparr>pcache := SetRange now (pcache (px y)) (SlaveID req) (FunctionCode req) (Address req)
        (values_at dval req vs)\<rparr>"
      "restamp y req g st =
        (\<lambda>s f a. if covers req s a \<and> f = FunctionCode req then vs ! unat (a - Address req) else stamp y s f a)"
proof (cases st)
  case None
  with assms show ?thesis by (intro unchanged) (simp_all add: storeFetched_def answer_ok_def restamp_def)
next
  case (Some vs)
  then have cur: "current dval req floor data vs" using assms(1) by (simp add: answer_ok_def)
  then have dec: "decomposeResponse (FunctionCode req) (Quantity req) data = Returns (Some (values_at dval req vs))"
    by (simp add: current_def)
  show ?thesis
  proof (cases "writeGeneration (px y) = g")
    case True
    with Some cur dec assms(2) show ?thesis by (intro stored) (simp_all add: storeFetched_def restamp_def)
  next
    case False
    with Some dec assms(2) show ?thesis by (intro unchanged) (simp_all add: storeFetched_def restamp_def)
  qed
qed

lemma task_of: "coherent dval y \<Longrightarrow> tasks y p = t \<Longrightarrow> task_ok dval y t"
  unfolding coherent_def by blast

lemma device_inv_step:
  assumes "pstep dval y z" and "device_inv y"
  shows "device_inv z"
  using assms
proof (induction rule: pstep.induct)
  case (write_end y p req flo')
  have up: "flo y s a \<le> flo' s a" for s a using write_end by (auto simp: device_inv_def)
  have "floAt y n s a \<le> flo' s a" if "n \<le> gens y" for n s a
    using that up [of s a] write_end(3) le_trans unfolding device_inv_def by blast
  then show ?case using write_end
    by (auto simp: device_inv_def bumpAndInvalidate_def le_Suc_eq)
qed (auto simp: device_inv_def bumpAndInvalidate_def le_Suc_eq intro: trans_le_add1 le_SucI)

lemma slot_cleanupOnce: "slot (cleanupOnce clock c) s f a = Some e \<Longrightarrow> slot c s f a = Some e"
  by (auto simp: cleanupOnce_def slot_def split: if_splits option.splits)

lemma cache_inv_store:
  assumes inv: "cache_inv dval y" "device_inv y" and cur: "current dval req (flo y) data st"
    and req: "valid_request req" "IsReadFunction (FunctionCode req)"
    and z: "px z = (px y)\<lparr>pcache := SetRange now (pcache (px y)) (SlaveID req) (FunctionCode req) (Address req)
        (values_at dval req st)\<rparr>"
      "stamp z = (\<lambda>s f a. if covers req s a \<and> f = FunctionCode req then st ! unat (a - Address req) else stamp y s f a)"
      "flo z = flo y"
  shows "cache_inv dval z"
  unfolding cache_inv_def
proof (intro allI impI)
  fix s f a e assume e: "slot (pcache (px z)) s f a = Some e" and f: "IsReadFunction f"
  have len: "length (values_at dval req st) \<le> 65536" using unat_u16_less [of "Quantity req"] by simp
  have wf: "\<forall>v \<in> set (values_at dval req st). wf_value (FunctionCode req) v"
    using cur decompose_wf [OF req(2) valid_read(2) [OF req]] by (auto simp: current_def)
  show "flo z s a \<le> stamp z s f a \<and> entData e = dval s f a (stamp z s f a) \<and> wf_value f (dval s f a (stamp z s f a))"
  proof (cases "covers req s a \<and> f = FunctionCode req")
    case True
    let ?j = "unat (a - Address req)"
    have j: "?j < unat (Quantity req)" "Address req + of_nat ?j = a"
      using True by (auto simp: covers_def in_range_def)
    have "entData e = values_at dval req st ! ?j"
      using e True by (auto simp: z(1) slot_SetRange [OF len] covers_def)
    then have d: "entData e = dval s f a (st ! ?j)" "wf_value f (entData e)"
      using True j wf nth_mem [of ?j "values_at dval req st"] by (simp_all add: nth_values_at covers_def)
    have "flo y s a \<le> st ! ?j" using cur j True unfolding current_def covers_def by force
    with d show ?thesis using True by (simp add: z)
  next
    case False
    then have "slot (pcache (px y)) s f a = Some e"
      using e by (auto simp: z(1) slot_SetRange [OF len] covers_def)
    with inv(1) f False show ?thesis by (auto simp: z cache_inv_def)
  qed
qed

lemma cache_inv_step:
  assumes "pstep dval y z" and "coherent dval y" and "gens z < 2 ^ 64"
  shows "cache_inv dval z"
  using assms
proof (induction rule: pstep.induct)
  case (store y p req g n floor data st now q)
  have t: "task_ok dval y (Sampled req g n floor data st)" using task_of [OF store.prems(1) store.hyps(1)] .
  have inv: "device_inv y" "cache_inv dval y" using store.prems(1) by (simp_all add: coherent_def)
  have ok: "g = of_nat n" "n \<le> gens y" "floor = floAt y n" "answer_ok dval req floor data st"
      "valid_request req" "IsReadFunction (FunctionCode req)" using t unfolding task_ok_def task.case by blast+
  from ok(4) store.hyps(2) show ?case
  proof (cases rule: store_effect)
    case unchanged
    then show ?thesis using inv(2) by (simp add: cache_inv_def)
  next
    case (stored vs)
    have g: "g = of_nat (gens y)" "floAt y (gens y) = flo y" using stored(3) inv(1) by (simp_all add: device_inv_def)
    have "n = gens y" using gen_inj [of n "gens y"] ok(1,2) g(1) store.prems(2) by simp
    then show ?thesis using inv ok g stored by (rule_tac cache_inv_store [where y = y and req = req and st = vs]) simp_all
  qed
next
  case (write_begin y p req)
  then show ?case
    by (auto simp: coherent_def cache_inv_def bumpAndInvalidate_def slot_invalidateCache split: if_splits)
next
  case (write_end y p req flo')
  then show ?case
    by (auto simp: coherent_def cache_inv_def bumpAndInvalidate_def slot_invalidateCache covers_def split: if_splits)
next
  case (cleanup y clock1)
  then show ?case by (auto simp: coherent_def cache_inv_def dest!: slot_cleanupOnce)
qed (auto simp: coherent_def cache_inv_def)

lemma fetched_inv_add:
  assumes "fetched_inv dval y" and "task_ok dval y (Sampled req g n floor data st)"
    and "fetched z = insert (coalesceKey g req, data, st) (fetched y)" and "gens z = gens y" and "floAt z = floAt y"
  shows "fetched_inv dval z"
  unfolding fetched_inv_def assms(3-5)
proof (intro allI impI)
  fix k data' st' assume "(k, data', st') \<in> insert (coalesceKey g req, data, st) (fetched y)"
  then consider "k = coalesceKey g req" "data' = data" "st' = st" | "(k, data', st') \<in> fetched y" by auto
  then show "\<exists>req n. k = coalesceKey (of_nat n) req \<and> n \<le> gens y \<and> answer_ok dval req (floAt y n) data' st'"
  proof cases
    case 1
    then show ?thesis using assms(2) unfolding task_ok_def task.case by blast
  next
    case 2
    then show ?thesis using assms(1) by (auto simp: fetched_inv_def)
  qed
qed

lemma fetched_inv_gen:
  assumes "fetched_inv dval y" and "fetched z = fetched y" and "gens z = Suc (gens y)"
    and "\<And>n. n \<le> gens y \<Longrightarrow> floAt z n = floAt y n"
  shows "fetched_inv dval z"
  using assms unfolding fetched_inv_def by (metis le_SucI)

lemma fetched_inv_step:
  assumes "pstep dval y z" and "coherent dval y"
  shows "fetched_inv dval z"
  using assms
proof (induction rule: pstep.induct)
  case (store y p req g n floor data st now q)
  have "fetched_inv dval y" using store.prems by (simp add: coherent_def)
  then show ?case using task_of [OF store.prems store.hyps(1)] by (rule fetched_inv_add) simp_all
next
  case (write_begin y p req)
  then show ?case by (rule_tac fetched_inv_gen [where y = y]) (auto simp: coherent_def)
next
  case (write_end y p req flo')
  then show ?case by (rule_tac fetched_inv_gen [where y = y]) (auto simp: coherent_def)
qed (auto simp: coherent_def fetched_inv_def)

text \<open>The tasks of the other requests are untouched, whatever the step.\<close>

lemma task_ok_frame:
  assumes "task_ok dval y t" and "gens y \<le> gens z" and "\<And>n. n \<le> gens y \<Longrightarrow> floAt z n = floAt y n"
  shows "task_ok dval z t"
  using assms by (cases t) (auto simp: task_ok_def)

lemma task_ok_other [simp]:
  "task_ok dval (y\<lparr>ver := v\<rparr>) t = task_ok dval y t" "task_ok dval (y\<lparr>px := q\<rparr>) t = task_ok dval y t"
  by (cases t; simp add: task_ok_def)+

lemma tasks_ok_update:
  assumes "\<forall>q. task_ok dval y (tasks y q)" and "gens y \<le> gens z" and "\<And>n. n \<le> gens y \<Longrightarrow> floAt z n = floAt y n"
    and "\<And>q. q \<noteq> p \<Longrightarrow> tasks z q = tasks y q" and "task_ok dval z (tasks z p)"
  shows "\<forall>q. task_ok dval z (tasks z q)"
proof
  fix q show "task_ok dval z (tasks z q)"
    using assms(4) [of q] assms(5) task_ok_frame [where y = y and z = z, OF _ assms(2,3)] assms(1)
    by (cases "q = p") simp_all
qed

lemma joined_answer:
  assumes "fetched_inv dval y" and "task_ok dval y (Missed req g n floor)"
    and "(coalesceKey g req, data, st) \<in> fetched y" and "gens y < 2 ^ 64"
  shows "answer_ok dval req floor data st"
proof -
  have m: "g = of_nat n" "n \<le> gens y" "floor = floAt y n"
    using assms(2) unfolding task_ok_def task.case by blast+
  obtain req' n' where f: "coalesceKey g req = coalesceKey (of_nat n') req'" "n' \<le> gens y"
      "answer_ok dval req' (floAt y n') data st"
    using assms(1,3) unfolding fetched_inv_def by blast
  have "n' = n" using f(1,2) m(1,2) assms(4) gen_inj [of n' n] by (auto simp: coalesceKey_separates)
  then show ?thesis using f(1,3) m(3) by (auto simp: coalesceKey_separates elim!: answer_same_range)
qed

text \<open>A fetch that starts after the read missed the cache shows versions not before the read's floor.\<close>

lemma sampled_current:
  assumes "coherent dval y" and "task_ok dval y (Missed req g n floor)"
    and "decomposeResponse (FunctionCode req) (Quantity req) data =
      Returns (Some (values_at dval req (range_of (ver y (SlaveID req)) req)))"
  shows "current dval req floor data (range_of (ver y (SlaveID req)) req)"
proof -
  have "floAt y n s a \<le> ver y s a" if "n \<le> gens y" for s a
    using that assms(1) le_trans unfolding coherent_def device_inv_def by blast
  with assms(2,3) show ?thesis by (auto simp: current_def nth_range_of)
qed

lemma stale_current:
  assumes "coherent dval y" and "task_ok dval y (Missed req g n floor)"
    and "GetRangeStale (pcache (px y)) (SlaveID req) (FunctionCode req) (Address req) (Quantity req) = Some vs"
    and "sliceOf (assembleResponse (FunctionCode req) (Quantity req) vs) = Returns data"
  shows "current dval req floor data (range_of (stamp y (SlaveID req) (FunctionCode req)) req)"
proof (rule current_mono)
  show "current dval req (flo y) data (range_of (stamp y (SlaveID req) (FunctionCode req)) req)"
    using cached_current [OF _ _ _ assms(3,4)] assms(1,2) by (simp add: coherent_def)
qed (use assms(1,2) in \<open>auto simp: coherent_def device_inv_def\<close>)

text \<open>A step that moves one task and leaves the generations alone.\<close>

lemma task_moved:
  assumes "coherent dval y" and "gens z = gens y" and "floAt z = floAt y" and "task_ok dval y t"
    and "tasks z = (tasks y)(p := t)"
  shows "\<forall>q. task_ok dval z (tasks z q)"
proof
  fix q
  have "task_ok dval y (tasks z q)" using assms(1,4,5) by (simp add: coherent_def)
  then show "task_ok dval z (tasks z q)" by (rule task_ok_frame) (simp_all add: assms)
qed

lemma task_step:
  assumes "pstep dval y z" and "coherent dval y" and "gens z < 2 ^ 64"
  shows "\<forall>q. task_ok dval z (tasks z q)"
  using assms
proof (induction rule: pstep.induct)
  case (hit y p req clock vs data)
  then have "current dval req (flo y) data (range_of (stamp y (SlaveID req) (FunctionCode req)) req)"
    using cached_current [OF _ hit(2,3) GetRange_stale [OF hit(4)] hit(5)] by (simp add: coherent_def)
  with hit show ?case by (rule_tac task_moved [where y = y]) (simp_all add: answer_ok_def)
next
  case (miss y p req clock)
  then show ?case by (rule_tac task_moved [where y = y]) (auto simp: coherent_def device_inv_def)
next
  case (sample y p req g n floor st data)
  note t = task_of [OF sample.prems(1) sample.hyps(1)]
  from sampled_current [OF sample.prems(1) t] t sample show ?case
    by (rule_tac task_moved [where y = y]) (simp_all add: answer_ok_def)
next
  case (garbled y p req g n floor data)
  with task_of [OF garbled.prems(1) garbled.hyps(1)] show ?case
    by (rule_tac task_moved [where y = y]) (simp_all add: answer_ok_def)
next
  case (store y p req g n floor data st now q)
  with task_of [OF store.prems(1) store.hyps(1)] show ?case
    by (rule_tac task_moved [where y = y]) auto
next
  case (join y p req g n floor data st)
  with task_of [OF join.prems(1) join.hyps(1)] joined_answer [where y = y] show ?case
    by (rule_tac task_moved [where y = y]) (auto simp: coherent_def)
next
  case (stale y p req g n floor vs data)
  with stale_current [OF _ task_of [OF stale.prems(1) stale.hyps(1)]] show ?case
    by (rule_tac task_moved [where y = y]) (simp_all add: answer_ok_def)
next
  case (write_begin y p req)
  then show ?case by (rule_tac tasks_ok_update [where y = y and p = p]) (auto simp: coherent_def)
next
  case (write_end y p req flo')
  then show ?case by (rule_tac tasks_ok_update [where y = y and p = p]) (auto simp: coherent_def)
next
  case (fail y p req g n floor)
  then show ?case by (rule_tac task_moved [where y = y]) simp_all
next
  case (expire y p req floor data st)
  then show ?case by (rule_tac task_moved [where y = y]) simp_all
next
  case (finish y p req floor data st)
  then show ?case by (rule_tac task_moved [where y = y]) simp_all
qed (auto simp: coherent_def)

lemma coherent_reachable: "preachable dval y \<Longrightarrow> gens y < 2 ^ 64 \<Longrightarrow> coherent dval y"
proof (induction rule: preachable.induct)
  case (start cfg)
  show ?case
    by (simp add: coherent_def pinit_def device_inv_def cache_inv_def fetched_inv_def NewProxy_def
        NewCache_def slot_def)
next
  case (step y z)
  have "coherent dval y" using step gens_mono [OF step(2)] by simp
  then show ?case unfolding coherent_def
    using device_inv_step [OF step(2)] cache_inv_step [OF step(2)] task_step [OF step(2)]
      fetched_inv_step [OF step(2)] step.prems by (simp add: coherent_def)
qed

subsection \<open>A run with a write between two reads\<close>

definition demo_dval :: "byte \<Rightarrow> byte \<Rightarrow> u16 \<Rightarrow> nat \<Rightarrow> bytes" where
  "demo_dval s f a v = [0, of_nat v]"

definition demo_cfg :: config where
  "demo_cfg = (defaultConfig [''MODBUS_UPSTREAM'' \<mapsto> ''dev:502''])\<lparr>ReadOnly := ReadOnlyOff\<rparr>"

definition one_read :: request where
  "one_read = \<lparr>TransactionID = 7, SlaveID = 1, FunctionCode = 3, Address = 100, Quantity = 1,
     reqData = [], PDU = [3, 0, 100, 0, 1]\<rparr>"

definition one_write :: request where
  "one_write = \<lparr>TransactionID = 8, SlaveID = 1, FunctionCode = 6, Address = 100, Quantity = 1,
     reqData = [0, 1], PDU = [6, 0, 100, 0, 1]\<rparr>"

lemma one_requests:
  "valid_request one_read" "IsReadFunction (FunctionCode one_read)"
  "valid_request one_write" "IsWriteFunction (FunctionCode one_write)"
  by (simp_all add: one_read_def one_write_def valid_request_def IsReadFunction_def IsWriteFunction_def
      max_quantity_def mb_consts)

lemma demo_reply:
  "decomposeResponse 3 1 [3, 2, 0, 1] = Returns (Some (values_at demo_dval one_read [1]))"
  using decompose_regs [of 3 1 "[3, 2, 0, 1]"]
  by (simp add: mb_consts values_at_def one_read_def demo_dval_def)

lemma demo_empty: "GetRange clock (pcache (bumpAndInvalidate one_write (bumpAndInvalidate one_write
    (px (pinit demo_cfg))))) 1 3 100 1 = None"
proof (rule ccontr)
  assume "\<not> ?thesis"
  then obtain e where "slot (pcache (bumpAndInvalidate one_write (bumpAndInvalidate one_write
      (px (pinit demo_cfg))))) 1 3 100 = Some e"
    by (auto simp: GetRange_iff)
  moreover have "slot (pcache (px (pinit demo_cfg))) 1 3 100 = None"
    by (simp add: pinit_def NewProxy_def NewCache_def slot_def)
  ultimately show False
    by (simp add: bumpAndInvalidate_def slot_invalidateCache split: if_splits)
qed

lemma coherence_run:
  "\<exists>y floor. preachable demo_dval y \<and> gens y = 2 \<and> tasks y 0 = Answered one_read floor [3, 2, 0, 1] (Some [1]) \<and> floor 1 100 = 1 \<and>
     GetStale (pcache (px y)) (RegKey 1 3 100) = Some [0, 1]"
proof -
  define y0 where "y0 = pinit demo_cfg"
  define y1 where "y1 = y0\<lparr>tasks := (tasks y0)(1 := Writing one_write), px := bumpAndInvalidate one_write (px y0),
    gens := Suc (gens y0), floAt := (floAt y0)(Suc (gens y0) := flo y0)\<rparr>"
  define y2 where "y2 = y1\<lparr>ver := (\<lambda>s a. if covers one_write s a then Suc (ver y1 s a) else ver y1 s a)\<rparr>"
  define fl where "fl = (\<lambda>s a. if covers one_write s a then ver y2 s a else flo y2 s a)"
  define y3 where "y3 = y2\<lparr>tasks := (tasks y2)(1 := Waiting), px := bumpAndInvalidate one_write (px y2),
    gens := Suc (gens y2), flo := fl, floAt := (floAt y2)(Suc (gens y2) := fl)\<rparr>"
  define y4 where "y4 = y3\<lparr>tasks := (tasks y3)(0 := Missed one_read (writeGeneration (px y3)) (gens y3) (flo y3))\<rparr>"
  define y5 where "y5 = y4\<lparr>tasks := (tasks y4)(0 := Sampled one_read (writeGeneration (px y3)) (gens y3) (flo y3) [3, 2, 0, 1] (Some [1]))\<rparr>"
  note defs = y5_def y4_def y3_def fl_def y2_def y1_def y0_def pinit_def
  have cov: "covers one_write 1 100" by (simp add: covers_def one_write_def in_range_def)
  have 1: "preachable demo_dval y1" unfolding y1_def y0_def
    by (rule preachable.step [OF preachable.start pstep.write_begin]) (simp_all add: pinit_def one_requests NewProxy_def demo_cfg_def)
  have 2: "preachable demo_dval y2" unfolding y2_def
    by (rule preachable.step [OF 1 pstep.device_write [where p = 1]]) (simp add: y1_def)
  have 3: "preachable demo_dval y3" unfolding y3_def
    by (rule preachable.step [OF 2 pstep.write_end [where p = 1]]) (simp_all add: fl_def y2_def y1_def)
  have 4: "preachable demo_dval y4" unfolding y4_def
    by (rule preachable.step [OF 3 pstep.miss [where p = 0 and clock = "\<lambda>_. 0"]])
      (use demo_empty one_requests in \<open>auto simp: defs one_read_def\<close>)
  have 5: "preachable demo_dval y5" unfolding y5_def
    by (rule preachable.step [OF 4 pstep.sample [where p = 0]])
      (use demo_reply cov in \<open>auto simp: defs range_of_def one_read_def\<close>)
  have stored: "GetStale (SetRange 0 c 1 3 100 (values_at demo_dval one_read [1])) (RegKey 1 3 100) = Some [0, 1]" for c
    using slot_SetRange [of "values_at demo_dval one_read [1]" 0 c 1 3 100 1 3 100]
    by (simp add: GetStale_def slot_def in_range_def nth_values_at one_read_def demo_dval_def)
  let ?c = "SetRange 0 (pcache (px y5)) 1 3 100 (values_at demo_dval one_read [1])"
  have q: "storeFetched 0 one_read (writeGeneration (px y3)) [3, 2, 0, 1] (px y5) = Returns ((px y5)\<lparr>pcache := ?c\<rparr>)"
    using demo_reply by (simp add: storeFetched_def one_read_def y5_def y4_def)
  have t5: "tasks y5 0 = Sampled one_read (writeGeneration (px y3)) (gens y3) (flo y3) [3, 2, 0, 1] (Some [1])"
    by (simp add: y5_def)
  have "\<exists>y. pstep demo_dval y5 y \<and> gens y = 2 \<and> tasks y 0 = Answered one_read (flo y3) [3, 2, 0, 1] (Some [1]) \<and>
      GetStale (pcache (px y)) (RegKey 1 3 100) = Some [0, 1]"
    by (rule exI, rule conjI, rule pstep.store [OF t5 q]) (use stored in \<open>auto simp: defs\<close>)
  moreover have "flo y3 1 100 = 1" using cov by (simp add: defs)
  ultimately show ?thesis using preachable.step [OF 5] by blast
qed

subsection \<open>Properties\<close>

text \<open>
  C1: Read your writes. In every interleaving of any number of reads and writes with the device's
  own changes, expiry and cleanup, the response a read gets, from the cache, from its own fetch, by
  joining another request's fetch, or as stale data, shows the device at each address in a version
  no older than the one the last write to that address left when it was answered, for every write
  answered before the read looked at the cache. The only other answer a read can get is a response
  of the device that is not a well-formed answer to the read, which is passed on as it is. (The
  write generation is a 64-bit counter; the statement is for runs that do not wrap it around.)
\<close>

theorem read_your_writes:
  assumes "preachable dval y" and "gens y < 2 ^ 64" and "tasks y p = Answered req floor data st"
  shows "case st of
      Some vs \<Rightarrow> decomposeResponse (FunctionCode req) (Quantity req) data = Returns (Some (values_at dval req vs)) \<and>
        (\<forall>j < unat (Quantity req). floor (SlaveID req) (Address req + of_nat j) \<le> vs ! j)
    | None \<Rightarrow> decomposeResponse (FunctionCode req) (Quantity req) data = Returns None"
  using task_of [OF coherent_reachable [OF assms(1,2)] assms(3)]
  by (auto simp: answer_ok_def current_def split: option.splits)

theorem read_your_writes_witness:
  "\<exists>y floor. preachable demo_dval y \<and> tasks y 0 = Answered one_read floor [3, 2, 0, 1] (Some [1]) \<and>
     floor 1 100 = 1 \<and> floor 1 100 \<le> [1] ! 0"
proof -
  obtain y floor where y: "preachable demo_dval y" "gens y = 2" "floor 1 100 = 1"
      "tasks y 0 = Answered one_read floor [3, 2, 0, 1] (Some [1])" using coherence_run by blast
  then show ?thesis using read_your_writes [OF y(1) _ y(4)] by (auto simp: one_read_def)
qed

text \<open>
  C17: The cache never holds a value from before an answered write: every stored value, fresh or
  stale, is what the device held at that address in a version no older than the one the last
  answered write left there.
\<close>

theorem cache_not_older_than_writes:
  assumes "preachable dval y" and "gens y < 2 ^ 64" and "IsReadFunction f"
    and "GetStale (pcache (px y)) (RegKey s f a) = Some v"
  shows "\<exists>n. flo y s a \<le> n \<and> v = dval s f a n"
proof -
  have "cache_inv dval y" using coherent_reachable [OF assms(1,2)] by (simp add: coherent_def)
  moreover obtain e where "slot (pcache (px y)) s f a = Some e" "v = entData e"
    using assms(4) by (auto simp: GetStale_def slot_def split: option.splits)
  ultimately show ?thesis using assms(3) unfolding cache_inv_def by blast
qed

theorem cache_not_older_than_writes_witness:
  "\<exists>y n. preachable demo_dval y \<and> GetStale (pcache (px y)) (RegKey 1 3 100) = Some [0, 1] \<and>
     flo y 1 100 \<le> n \<and> [0, 1] = demo_dval 1 3 100 n"
proof -
  obtain y where y: "preachable demo_dval y" "gens y = 2"
      "GetStale (pcache (px y)) (RegKey 1 3 100) = Some [0, 1]" using coherence_run by blast
  then show ?thesis using cache_not_older_than_writes [OF y(1) _ _ y(3)]
    by (auto simp: IsReadFunction_def mb_consts)
qed

end
