(* ===== verification/Handler_Runs.thy ===== *)
theory Handler_Runs
  imports Proxy_Coherence
begin

text \<open>
  The interleaved steps of \<^verbatim>\<open>Proxy_Coherence\<close> against the handler of
  \<^verbatim>\<open>internal/proxy/proxy.go\<close>: a call of \<open>HandleRequest\<close> that nothing interrupts is a run of
  those steps, with the same answer and the same cache and write generation at the end.
\<close>

subsection \<open>Runs of steps\<close>

lemma run_preachable: "(pstep dval)\<^sup>*\<^sup>* y z \<Longrightarrow> preachable dval y \<Longrightarrow> preachable dval z"
  by (induction rule: rtranclp_induct) (auto intro: preachable.step)

text \<open>A leader's iteration of the coalescing loop in which no context is over.\<close>

definition leading :: "coalesce_iter \<Rightarrow> bool" where
  "leading it \<longleftrightarrow> ctxTop it = None \<and> \<not> inFlight it \<and> ctxAfterFetch it = None"

lemma leading_fetch:
  "leading it \<Longrightarrow> CoalesceWithStatus (it # its) False 0 fetch s =
     Some ((fst (fetch s), \<lparr>Coalesced = False, Waited = False, WaitDuration = 0\<rparr>), snd (fetch s))"
  by (auto simp: leading_def Let_def split_beta split: sum.splits)

text \<open>What a device that is asked now may answer a read: its values, or something that cannot be decomposed.\<close>

definition truthful :: "(byte \<Rightarrow> byte \<Rightarrow> u16 \<Rightarrow> nat \<Rightarrow> bytes) \<Rightarrow> system \<Rightarrow> request \<Rightarrow> goerror + bytes \<Rightarrow> bool" where
  "truthful dval y req reply = (case reply of
     Inl err \<Rightarrow> True
   | Inr data \<Rightarrow> decomposeResponse (FunctionCode req) (Quantity req) data \<in>
       {Returns None, Returns (Some (values_at dval req (range_of (ver y (SlaveID req)) req)))})"

lemma missed_run:
  assumes "tasks y p = Waiting" and "valid_request req" and "IsReadFunction (FunctionCode req)"
    and "GetRange clock (pcache (px y)) (SlaveID req) (FunctionCode req) (Address req) (Quantity req) = None"
  obtains y1 where "pstep dval y y1" "tasks y1 p = Missed req (writeGeneration (px y)) (gens y) (flo y)"
    "px y1 = px y" "ver y1 = ver y"
  using pstep.miss [OF assms, of dval] by force

lemma fetched_run:
  assumes "tasks y p = Missed req (writeGeneration (px y)) n floor" and "truthful dval y req (Inr data)"
    and "storeFetched now req (writeGeneration (px y)) data (px y) = Returns q"
  shows "\<exists>z st. (pstep dval)\<^sup>*\<^sup>* y z \<and> px z = q \<and> tasks z p = Answered req floor data st"
proof -
  obtain y1 st where 1: "pstep dval y y1" "px y1 = px y" "tasks y1 p = Sampled req (writeGeneration (px y)) n floor data st"
    using assms(2) pstep.sample [OF assms(1) refl, of data dval] pstep.garbled [OF assms(1), of data dval]
    unfolding truthful_def by force
  obtain z where "pstep dval y1 z" "px z = q" "tasks z p = Answered req floor data st"
    using pstep.store [OF 1(3), of now q dval] assms(3) 1(2) by force
  with 1(1) show ?thesis by (blast intro: rtranclp.intros converse_rtranclp_into_rtranclp)
qed

lemma stale_run:
  assumes "tasks y p = Missed req g n floor" and "CacheServeStale (pcfg (px y))"
    and "GetRangeStale (pcache (px y)) (SlaveID req) (FunctionCode req) (Address req) (Quantity req) = Some vs"
    and "sliceOf (assembleResponse (FunctionCode req) (Quantity req) vs) = Returns b"
  shows "\<exists>z st. pstep dval y z \<and> px z = px y \<and> tasks z p = Answered req floor b st"
  by (intro exI conjI, rule pstep.stale [OF assms]) simp_all

lemma failed_run:
  assumes "tasks y p = Missed req g n floor"
  shows "\<exists>z. pstep dval y z \<and> px z = px y \<and> tasks z p = Failed"
  by (intro exI conjI, rule pstep.fail [OF assms]) simp_all

lemma hit_run:
  assumes "tasks y p = Waiting" and "valid_request req" and "IsReadFunction (FunctionCode req)"
    and "GetRange clock (pcache (px y)) (SlaveID req) (FunctionCode req) (Address req) (Quantity req) = Some vs"
    and "sliceOf (assembleResponse (FunctionCode req) (Quantity req) vs) = Returns b"
  shows "\<exists>z st. pstep dval y z \<and> px z = px y \<and> tasks z p = Answered req (flo y) b st"
  by (intro exI conjI, rule pstep.hit [OF assms]) simp_all

subsection \<open>Reads and writes that run alone\<close>

definition read_ends :: "system \<Rightarrow> nat \<Rightarrow> request \<Rightarrow> versions \<Rightarrow> goerror + bytes \<Rightarrow> bool" where
  "read_ends z p req floor r = (case r of
     Inl x \<Rightarrow> tasks z p = Failed
   | Inr b \<Rightarrow> \<exists>st. tasks z p = Answered req floor b st)"

lemma handleRead_missed:
  assumes "GetRange (hitClock o1) (pcache p0) (SlaveID req) (FunctionCode req) (Address req) (Quantity req) = None"
    and "iterations o1 = it # its" and "leading it" and "\<And>q. meanwhile o1 q = q"
    and "handleRead (\<lambda>_ q. (reply, q)) o1 req p0 = Some (Returns (r, q))"
  shows "case reply of
      Inr data \<Rightarrow> r = Inr data \<and> storeFetched (storeClock o1) req (writeGeneration p0) data p0 = Returns q
    | Inl err \<Rightarrow> (r, q) = (Inl err, p0) \<or> CacheServeStale (pcfg p0) \<and>
        (\<exists>vs b. GetRangeStale (pcache p0) (SlaveID req) (FunctionCode req) (Address req) (Quantity req) = Some vs \<and>
          sliceOf (assembleResponse (FunctionCode req) (Quantity req) vs) = Returns b \<and> (r, q) = (Inr b, p0))"
  using assms(5) assms(1,4)
  unfolding handleRead_def assms(2) leading_fetch [OF assms(3)]
  by (auto simp: fetchAndStore_def Let_def map_go_Returns split: sum.splits go.splits option.splits if_splits)

lemma read_as_run:
  assumes "tasks y p = Waiting" and "valid_request req" and "IsReadFunction (FunctionCode req)"
    and "iterations o1 = it # its" and "leading it" and "\<And>q. meanwhile o1 q = q" and "truthful dval y req reply"
    and "handleRead (\<lambda>_ q. (reply, q)) o1 req (px y) = Some (Returns (r, q))"
  shows "\<exists>z. (pstep dval)\<^sup>*\<^sup>* y z \<and> px z = q \<and> read_ends z p req (flo y) r"
proof (cases "GetRange (hitClock o1) (pcache (px y)) (SlaveID req) (FunctionCode req) (Address req) (Quantity req)")
  case (Some vs)
  then obtain b where "sliceOf (assembleResponse (FunctionCode req) (Quantity req) vs) = Returns b" "r = Inr b" "q = px y"
    using assms(8) by (auto simp: handleRead_def map_go_Returns)
  with hit_run [OF assms(1-3) Some, of b dval] show ?thesis
    by (auto simp: read_ends_def intro: r_into_rtranclp)
next
  case None
  obtain y1 where y1: "pstep dval y y1" "tasks y1 p = Missed req (writeGeneration (px y)) (gens y) (flo y)"
      "px y1 = px y" "ver y1 = ver y" by (rule missed_run [OF assms(1-3) None])
  note handled = handleRead_missed [OF None assms(4-6) assms(8)]
  have "\<exists>z. (pstep dval)\<^sup>*\<^sup>* y1 z \<and> px z = q \<and> read_ends z p req (flo y) r"
  proof (cases reply)
    case (Inl err)
    then consider "r = Inl err" "q = px y"
      | vs b where "CacheServeStale (pcfg (px y))" "r = Inr b" "q = px y"
          "GetRangeStale (pcache (px y)) (SlaveID req) (FunctionCode req) (Address req) (Quantity req) = Some vs"
          "sliceOf (assembleResponse (FunctionCode req) (Quantity req) vs) = Returns b"
      using handled by auto
    then show ?thesis
    proof cases
      case 1
      then show ?thesis using failed_run [OF y1(2), of dval] y1(3)
        by (auto simp: read_ends_def intro: r_into_rtranclp)
    next
      case (2 vs b)
      then show ?thesis using stale_run [OF y1(2), of vs b dval] y1(3)
        by (auto simp: read_ends_def intro: r_into_rtranclp)
    qed
  next
    case (Inr data)
    then have "truthful dval y1 req (Inr data)" using assms(7) y1(4) by (simp add: truthful_def)
    from fetched_run [OF y1(2) [folded y1(3)] this] handled Inr y1(3) show ?thesis
      by (auto simp: read_ends_def)
  qed
  with y1(1) show ?thesis by (blast intro: converse_rtranclp_into_rtranclp)
qed

lemma write_as_run:
  assumes "tasks y p = Waiting" and "valid_request req" and "IsWriteFunction (FunctionCode req)"
    and "handleWrite (\<lambda>_ q. (reply, q)) req (px y) = (r, q)"
  shows "\<exists>z. (pstep dval)\<^sup>*\<^sup>* y z \<and> px z = q \<and> tasks z p = Waiting \<and>
    (ReadOnly (pcfg (px y)) = ReadOnlyOff \<longrightarrow> (\<forall>s a. covers req s a \<longrightarrow> ver y s a < ver z s a \<and> flo z s a = ver z s a))"
proof (cases "ReadOnly (pcfg (px y)) = ReadOnlyOff")
  case True
  obtain y1 where y1: "pstep dval y y1" "tasks y1 p = Writing req" "px y1 = bumpAndInvalidate req (px y)" "ver y1 = ver y"
    using pstep.write_begin [OF assms(1-3) True, of dval] by force
  obtain y2 where y2: "pstep dval y1 y2" "tasks y2 p = Writing req" "px y2 = px y1"
      "ver y2 = (\<lambda>s a. if covers req s a then Suc (ver y1 s a) else ver y1 s a)"
    using pstep.device_write [OF y1(2), of dval] y1(2) by force
  obtain y3 where y3: "pstep dval y2 y3" "tasks y3 p = Waiting" "px y3 = bumpAndInvalidate req (px y2)" "ver y3 = ver y2"
      "flo y3 = (\<lambda>s a. if covers req s a then ver y2 s a else flo y2 s a)"
    using pstep.write_end [OF y2(2) refl, of dval] by force
  have "q = px y3" using assms(4) True y1(3) y2(3) y3(3) by (simp add: handleWrite_def)
  moreover have "(pstep dval)\<^sup>*\<^sup>* y y3" using y1(1) y2(1) y3(1)
    by (meson converse_rtranclp_into_rtranclp rtranclp.rtrancl_refl)
  ultimately show ?thesis using y1(4) y2(4) y3(2,4,5) by auto
next
  case False
  then have "q = px y" using assms(4) by (cases "ReadOnly (pcfg (px y))") (auto simp: handleWrite_def)
  with assms(1) False show ?thesis by blast
qed

subsection \<open>Properties\<close>



end
