(* ===== verification/Guarded_Conn.thy ===== *)
theory Guarded_Conn
  imports Upstream_Client
begin

text \<open>
  The session side of \<^verbatim>\<open>internal/modbus/client.go\<close>: \<open>guardedConn\<close>, the connection
  wrapper that keeps the Modbus library from extending a request's socket deadline, and
  \<open>tcpSession\<close> with its dialer, \<open>BeginRequest\<close> and \<open>SendRaw\<close>. The operations of the
  wrapper run under its lock, so each is one step; the context they look at and their clock
  readings are arguments. The Modbus library's encoder, transport and decoder are arguments of
  \<open>SendRaw\<close>. The lemmas show that no sequence of operations moves a bound connection's deadlines
  past the request's, that a cancelled request writes nothing more, and that nothing of a finished
  request is left for the next one.
\<close>

subsection \<open>State\<close>

text \<open>A context as it looks at some moment.\<close>

record context_view =
  viewErr :: "goerror option"
  viewDeadline :: "time option"

text \<open>
  \<open>bound\<close> says whether the field \<^verbatim>\<open>ctx\<close> is set. \<open>sockErr\<close>, \<open>readDl\<close>, \<open>writeDl\<close>
  and \<open>wire\<close> are the wrapped connection: what its deadline methods return, its two deadlines and
  what was written to it.
\<close>

record guardedConn =
  bound :: bool
  maxDeadline :: time
  canceledErr :: "goerror option"
  writeStarted :: bool
  sockErr :: "goerror option"
  readDl :: time
  writeDl :: time
  wire :: "bytes list"

definition newGuardedConn :: guardedConn where
  "newGuardedConn = \<lparr>bound = False, maxDeadline = 0, canceledErr = None, writeStarted = False,
     sockErr = None, readDl = 0, writeDl = 0, wire = []\<rparr>"

text \<open>\<open>contextError\<close> on a context given by its view.\<close>

definition viewContextError :: "context_view \<Rightarrow> time \<Rightarrow> goerror option" where
  "viewContextError v now = (case viewErr v of
     Some e \<Rightarrow> Some e
   | None \<Rightarrow>
       (case viewDeadline v of
          None \<Rightarrow> None
        | Some d \<Rightarrow> if now < d then None else Some DeadlineExceeded))"

text \<open>\<^verbatim>\<open>time.Unix(1, 0)\<close>, a moment long past.\<close>

definition longPast :: time where
  "longPast = 62135596801 * 1000000000"

text \<open>The deadline methods of the wrapped connection: they fail without an effect once it is closed.\<close>

definition sockDeadline :: "(guardedConn \<Rightarrow> guardedConn) \<Rightarrow> guardedConn \<Rightarrow> goerror option \<times> guardedConn" where
  "sockDeadline f c = (case sockErr c of Some e \<Rightarrow> (Some e, c) | None \<Rightarrow> (None, f c))"

subsection \<open>Operations\<close>

text \<open>The two readings of the clock are \<open>now\<close> (in \<open>contextError\<close>) and \<open>now2\<close>.\<close>

definition requestErrorLocked :: "context_view \<Rightarrow> time \<Rightarrow> time \<Rightarrow> guardedConn \<Rightarrow> goerror option" where
  "requestErrorLocked v now now2 c =
     (if \<not> bound c then None
      else (case canceledErr c of
              Some e \<Rightarrow> Some e
            | None \<Rightarrow>
                (case viewContextError v now of
                   Some e \<Rightarrow> Some e
                 | None \<Rightarrow>
                     if \<not> IsZero (maxDeadline c) \<and> \<not> now2 < maxDeadline c then Some DeadlineExceeded else None)))"

definition clampDeadlineLocked :: "context_view \<Rightarrow> time \<Rightarrow> time \<Rightarrow> guardedConn \<Rightarrow> time \<Rightarrow> time" where
  "clampDeadlineLocked v now now2 c deadline =
     (if requestErrorLocked v now now2 c \<noteq> None then longPast
      else if bound c \<and> (IsZero deadline \<or> maxDeadline c < deadline) then maxDeadline c
      else deadline)"

definition SetDeadline :: "context_view \<Rightarrow> time \<Rightarrow> time \<Rightarrow> time \<Rightarrow> guardedConn \<Rightarrow> goerror option \<times> guardedConn" where
  "SetDeadline v now now2 deadline c =
     (let d = clampDeadlineLocked v now now2 c deadline in sockDeadline (\<lambda>c. c\<lparr>readDl := d, writeDl := d\<rparr>) c)"

definition SetReadDeadline :: "context_view \<Rightarrow> time \<Rightarrow> time \<Rightarrow> time \<Rightarrow> guardedConn \<Rightarrow> goerror option \<times> guardedConn" where
  "SetReadDeadline v now now2 deadline c =
     (let d = clampDeadlineLocked v now now2 c deadline in sockDeadline (\<lambda>c. c\<lparr>readDl := d\<rparr>) c)"

definition SetWriteDeadline :: "context_view \<Rightarrow> time \<Rightarrow> time \<Rightarrow> time \<Rightarrow> guardedConn \<Rightarrow> goerror option \<times> guardedConn" where
  "SetWriteDeadline v now now2 deadline c =
     (let d = clampDeadlineLocked v now now2 c deadline in sockDeadline (\<lambda>c. c\<lparr>writeDl := d\<rparr>) c)"

definition bind_conn :: "context_view \<Rightarrow> time \<Rightarrow> time \<Rightarrow> time \<Rightarrow> time \<Rightarrow> guardedConn \<Rightarrow> goerror option \<times> guardedConn" where
  "bind_conn v now0 now now2 max_deadline c =
     (let c' = c\<lparr>bound := True, maxDeadline := max_deadline, canceledErr := viewContextError v now0,
                 writeStarted := False\<rparr>;
          d = clampDeadlineLocked v now now2 c' max_deadline
      in sockDeadline (\<lambda>c. c\<lparr>readDl := d, writeDl := d\<rparr>) c')"

definition unbind :: "guardedConn \<Rightarrow> guardedConn" where
  "unbind c = c\<lparr>bound := False, maxDeadline := 0, canceledErr := None, writeStarted := False\<rparr>"

definition cancel :: "goerror \<Rightarrow> time \<Rightarrow> guardedConn \<Rightarrow> goerror option \<times> guardedConn" where
  "cancel err now c =
     (if \<not> bound c then (None, c)
      else sockDeadline (\<lambda>c. c\<lparr>readDl := now, writeDl := now\<rparr>) (c\<lparr>canceledErr := Some err\<rparr>))"

text \<open>\<open>res\<close> is what the wrapped connection's own \<^verbatim>\<open>Write\<close> returns.\<close>

definition WriteConn :: "context_view \<Rightarrow> time \<Rightarrow> time \<Rightarrow> goerror + nat \<Rightarrow> bytes \<Rightarrow> guardedConn \<Rightarrow>
    (goerror + nat) \<times> guardedConn" where
  "WriteConn v now now2 res data c = (case requestErrorLocked v now now2 c of
     Some e \<Rightarrow> (Inl e, c)
   | None \<Rightarrow> (res, c\<lparr>writeStarted := True, wire := wire c @ [data]\<rparr>))"

subsection \<open>Sessions\<close>

text \<open>The handler's settings are the fields of the Modbus library's \<^verbatim>\<open>TCPClientHandler\<close> that the code sets.\<close>

record tcpSession =
  handlerAddress :: string
  dialerTimeout :: duration
  dialerKeepAlive :: duration
  handlerTimeout :: duration
  handlerIdleTimeout :: duration
  handlerConnectDelay :: duration
  handlerSlave :: byte
  sessionConn :: "guardedConn option"

definition newTCPSession :: "string \<Rightarrow> duration \<Rightarrow> duration \<Rightarrow> tcpSession" where
  "newTCPSession addr attempt_timeout connect_delay =
     \<lparr>handlerAddress = addr, dialerTimeout = attempt_timeout, dialerKeepAlive = 30 * second,
      handlerTimeout = attempt_timeout, handlerIdleTimeout = - 1, handlerConnectDelay = connect_delay,
      handlerSlave = 0, sessionConn = None\<rparr>"

text \<open>The dialer the library calls: \<open>res\<close> is the failure of the network's dial, if it fails.\<close>

definition dialSession :: "goerror option \<Rightarrow> tcpSession \<Rightarrow> goerror option \<times> tcpSession" where
  "dialSession res s = (case res of
     Some err \<Rightarrow> (Some err, s)
   | None \<Rightarrow> (None, s\<lparr>sessionConn := Some newGuardedConn\<rparr>))"

text \<open>\<open>err\<close> is what closing the library's handler returns.\<close>

definition CloseTCPSession :: "goerror option \<Rightarrow> tcpSession \<Rightarrow> goerror option \<times> tcpSession" where
  "CloseTCPSession err s = (err, s\<lparr>sessionConn := None\<rparr>)"

definition SetSlave :: "byte \<Rightarrow> tcpSession \<Rightarrow> tcpSession" where
  "SetSlave slaveID s = s\<lparr>handlerSlave := slaveID\<rparr>"

definition requestDeadline :: "context_view \<Rightarrow> time \<Rightarrow> duration \<Rightarrow> time" where
  "requestDeadline v now attempt_timeout =
     (let d = time_add now attempt_timeout in
      case viewDeadline v of None \<Rightarrow> d | Some dl \<Rightarrow> if dl < d then dl else d)"

text \<open>
  \<open>BeginRequest\<close> up to the start of the watchdog; it returns the error of binding. The watchdog's
  call of \<open>cancel\<close> is a step of its own, and \<open>finishSession\<close> is the function \<open>BeginRequest\<close>
  returns, after the watchdog has stopped with \<open>watchdogErr\<close>: the empty list is a nil error.
\<close>

definition BeginRequest :: "context_view \<Rightarrow> time \<Rightarrow> time \<Rightarrow> time \<Rightarrow> time \<Rightarrow> duration \<Rightarrow> tcpSession \<Rightarrow>
    goerror option \<times> tcpSession" where
  "BeginRequest v now0 now1 now2 now3 attempt_timeout s =
     (let s = s\<lparr>handlerTimeout := attempt_timeout\<rparr> in
      case sessionConn s of
        None \<Rightarrow> (None, s)
      | Some conn \<Rightarrow>
          (let (bindErr, conn') = bind_conn v now1 now2 now3 (requestDeadline v now0 attempt_timeout) conn
           in (bindErr, s\<lparr>sessionConn := Some conn'\<rparr>)))"

definition joinErrors :: "goerror option list \<Rightarrow> goerror list" where
  "joinErrors errs = List.map_filter id errs"

definition finishSession :: "goerror option \<Rightarrow> goerror option \<Rightarrow> tcpSession \<Rightarrow> goerror list \<times> tcpSession" where
  "finishSession bindErr watchdogErr s = (case sessionConn s of
     None \<Rightarrow> ([], s)
   | Some conn \<Rightarrow> (joinErrors [bindErr, watchdogErr], s\<lparr>sessionConn := Some (unbind conn)\<rparr>))"

text \<open>\<^verbatim>\<open>SendRaw\<close> over the four functions of the Modbus library's handler.\<close>

definition SendRawOn ::
  "(byte \<Rightarrow> bytes \<Rightarrow> goerror + bytes) \<Rightarrow> (bytes \<Rightarrow> goerror + bytes) \<Rightarrow> (bytes \<Rightarrow> bytes \<Rightarrow> goerror option) \<Rightarrow>
   (bytes \<Rightarrow> goerror + (byte \<times> bytes)) \<Rightarrow> bytes \<Rightarrow> goerror + bytes" where
  "SendRawOn Encode Send Verify Decode pdu =
     (if length pdu < 1 then Inl (Plain ''empty pdu'')
      else (case Encode (pdu ! 0) (drop 1 pdu) of
              Inl err \<Rightarrow> Inl err
            | Inr aduRequest \<Rightarrow>
                (case Send aduRequest of
                   Inl err \<Rightarrow> Inl err
                 | Inr aduResponse \<Rightarrow>
                     (case Verify aduRequest aduResponse of
                        Some err \<Rightarrow> Inl err
                      | None \<Rightarrow>
                          (case Decode aduResponse of
                             Inl err \<Rightarrow> Inl err
                           | Inr (fc, data) \<Rightarrow>
                               if fc \<noteq> pdu ! 0
                               then Inl (MbError fc (if length data > 0 then data ! 0 else 0))
                               else Inr (fc # data))))))"

subsection \<open>What happens to a bound connection\<close>

text \<open>
  The operations the Modbus library and the watchdog perform while a request is bound, with the
  context and the clock they see.
\<close>

datatype conn_op =
    OpSetDeadline context_view time time time
  | OpSetReadDeadline context_view time time time
  | OpSetWriteDeadline context_view time time time
  | OpWrite context_view time time "goerror + nat" bytes
  | OpCancel goerror time

fun perform :: "conn_op \<Rightarrow> guardedConn \<Rightarrow> guardedConn" where
  "perform (OpSetDeadline v n1 n2 d) c = snd (SetDeadline v n1 n2 d c)"
| "perform (OpSetReadDeadline v n1 n2 d) c = snd (SetReadDeadline v n1 n2 d c)"
| "perform (OpSetWriteDeadline v n1 n2 d) c = snd (SetWriteDeadline v n1 n2 d c)"
| "perform (OpWrite v n1 n2 res data) c = snd (WriteConn v n1 n2 res data c)"
| "perform (OpCancel e n) c = snd (cancel e n c)"

text \<open>The moments at which operations of the sequence cancelled the request.\<close>

fun cancel_times :: "conn_op list \<Rightarrow> time set" where
  "cancel_times [] = {}"
| "cancel_times (OpCancel e n # ops) = insert n (cancel_times ops)"
| "cancel_times (_ # ops) = cancel_times ops"

lemmas conn_op_defs = SetDeadline_def SetReadDeadline_def SetWriteDeadline_def WriteConn_def cancel_def
  sockDeadline_def Let_def

definition within :: "time \<Rightarrow> time set \<Rightarrow> guardedConn \<Rightarrow> bool" where
  "within m T c \<longleftrightarrow> bound c \<and> sockErr c = None \<and> maxDeadline c = m \<and>
     (\<forall>d \<in> {readDl c, writeDl c}. d \<noteq> 0 \<and> (d \<le> m \<or> d \<in> T))"

lemma longPast_nonzero [simp]: "longPast \<noteq> 0" "\<not> longPast \<le> 0" "0 < longPast"
  by (simp_all add: longPast_def)

lemma clamp_within:
  assumes "bound c" and "longPast \<le> maxDeadline c"
  shows "clampDeadlineLocked v n1 n2 c d \<noteq> 0 \<and> clampDeadlineLocked v n1 n2 c d \<le> maxDeadline c"
  using assms longPast_nonzero by (auto simp: clampDeadlineLocked_def IsZero_def simp del: longPast_nonzero)

lemma within_perform:
  assumes "within m T c" and "longPast \<le> m" and "\<And>e n. op1 = OpCancel e n \<Longrightarrow> n \<in> T \<and> n \<noteq> 0"
  shows "within m T (perform op1 c)"
  using assms clamp_within [of c]
  by (cases op1) (auto simp: within_def conn_op_defs split: option.split)

lemma within_performs:
  "within m T c \<Longrightarrow> longPast \<le> m \<Longrightarrow> cancel_times ops \<subseteq> T \<Longrightarrow> 0 \<notin> cancel_times ops \<Longrightarrow>
     within m T (fold perform ops c)"
proof (induction ops arbitrary: c)
  case (Cons op1 ops)
  have sub: "cancel_times ops \<subseteq> T" "0 \<notin> cancel_times ops" using Cons.prems(3,4) by (cases op1; auto)+
  have "within m T (perform op1 c)"
    using Cons.prems by (intro within_perform) auto
  with Cons.IH sub Cons.prems(2) show ?case by simp
qed simp

lemma within_bind:
  assumes "sockErr c = None" and "longPast \<le> m"
  shows "within m T (snd (bind_conn v now1 now2 now3 m c))"
  using assms clamp_within [of "c\<lparr>bound := True, maxDeadline := m, canceledErr := x, writeStarted := False\<rparr>" for x]
  by (auto simp: within_def bind_conn_def sockDeadline_def Let_def)

text \<open>A cancelled request stays cancelled, with the same error if nobody cancels it again.\<close>

lemma canceled_performs:
  "bound c \<Longrightarrow> canceledErr c = Some e \<Longrightarrow> cancel_times ops = {} \<Longrightarrow>
     bound (fold perform ops c) \<and> canceledErr (fold perform ops c) = Some e \<and>
     wire (fold perform ops c) = wire c \<and> writeStarted (fold perform ops c) = writeStarted c"
proof (induction ops arbitrary: c)
  case (Cons op1 ops)
  then have "bound (perform op1 c) \<and> canceledErr (perform op1 c) = Some e \<and> wire (perform op1 c) = wire c \<and>
      writeStarted (perform op1 c) = writeStarted c" and "cancel_times ops = {}"
    by (cases op1; auto simp: conn_op_defs requestErrorLocked_def split: option.split)+
  with Cons.IH [of "perform op1 c"] show ?case by simp
qed simp

lemma sockErr_performs: "sockErr (fold perform ops c) = sockErr c"
proof (induction ops arbitrary: c)
  case (Cons op1 ops)
  have "sockErr (perform op1 c) = sockErr c"
    by (cases op1) (auto simp: conn_op_defs split: option.split)
  with Cons.IH show ?case by simp
qed simp

lemma bind_unbind:
  "sockErr c = None \<Longrightarrow>
     snd (bind_conn v now1 now2 now3 m (unbind c)) = (snd (bind_conn v now1 now2 now3 m newGuardedConn))\<lparr>wire := wire c\<rparr>"
  by (cases c)
    (auto simp: bind_conn_def unbind_def sockDeadline_def newGuardedConn_def clampDeadlineLocked_def
      requestErrorLocked_def Let_def)

subsection \<open>Properties\<close>

definition demo_view :: context_view where
  "demo_view = \<lparr>viewErr = None, viewDeadline = Some (longPast + 50)\<rparr>"

text \<open>
  C20: For every sequence of deadline changes, writes and cancellations after \<open>BeginRequest\<close>, the
  socket's read and write deadlines are set, and each is at most the request's deadline or the
  moment of a cancellation. The request's deadline is at most the attempt timeout from now and at
  most the deadline of the request's context: no caller can extend the time of a request on the
  socket. The clock is past 1970 and the connection was open.
\<close>

theorem bound_deadlines_clamped:
  assumes "sessionConn s = Some c0" and "sockErr c0 = None"
    and "longPast \<le> requestDeadline v now0 attempt_timeout" and "0 \<notin> cancel_times ops"
    and "sessionConn (snd (BeginRequest v now0 now1 now2 now3 attempt_timeout s)) = Some c"
  shows "(\<forall>d \<in> {readDl (fold perform ops c), writeDl (fold perform ops c)}.
      d \<noteq> 0 \<and> (d \<le> requestDeadline v now0 attempt_timeout \<or> d \<in> cancel_times ops)) \<and>
    requestDeadline v now0 attempt_timeout \<le> now0 + sint attempt_timeout \<and>
    (\<forall>dl. viewDeadline v = Some dl \<longrightarrow> requestDeadline v now0 attempt_timeout \<le> dl)"
proof -
  let ?m = "requestDeadline v now0 attempt_timeout"
  have "c = snd (bind_conn v now1 now2 now3 ?m c0)"
    using assms(1,5) by (auto simp: BeginRequest_def Let_def split: prod.splits)
  then have "within ?m (cancel_times ops) c"
    using within_bind assms(2,3) by simp
  then have "within ?m (cancel_times ops) (fold perform ops c)"
    using within_performs assms(3,4) by blast
  moreover have "?m \<le> now0 + sint attempt_timeout" "\<forall>dl. viewDeadline v = Some dl \<longrightarrow> ?m \<le> dl"
    by (auto simp: requestDeadline_def time_add_def Let_def split: option.split)
  ultimately show ?thesis by (simp add: within_def)
qed

theorem bound_deadlines_clamped_witness:
  "writeDl (fold perform [OpSetDeadline demo_view longPast longPast 0, OpCancel Canceled longPast]
           (snd (bind_conn demo_view longPast longPast longPast (longPast + 50) newGuardedConn))) \<le> longPast + 50"
proof -
  let ?ops = "[OpSetDeadline demo_view longPast longPast 0, OpCancel Canceled longPast]"
  let ?s = "snd (dialSession None (newTCPSession ''plc:502'' second 0))"
  let ?c = "snd (bind_conn demo_view longPast longPast longPast (longPast + 50) newGuardedConn)"
  have m: "requestDeadline demo_view longPast second = longPast + 50"
    by (simp add: requestDeadline_def demo_view_def time_add_def second_def)
  have "sessionConn (snd (BeginRequest demo_view longPast longPast longPast longPast second ?s)) = Some ?c"
    by (simp add: BeginRequest_def dialSession_def newTCPSession_def m split: prod.split)
  from bound_deadlines_clamped [OF _ _ _ _ this, of newGuardedConn ?ops]
  show ?thesis by (auto simp: m dialSession_def newTCPSession_def newGuardedConn_def)
qed



text \<open>
  A request leaves nothing behind for the next one on the same connection: after any sequence
  of operations of an earlier request and its end, beginning a request puts the open connection in
  the same state, but for the bytes already written, as beginning it on a new connection.
\<close>

lemma requests_isolated:
  assumes "sockErr c = None"
  shows "snd (bind_conn v now1 now2 now3 m (unbind (fold perform ops c))) =
    (snd (bind_conn v now1 now2 now3 m newGuardedConn))\<lparr>wire := wire (fold perform ops c)\<rparr>"
  using assms sockErr_performs [of ops c] by (simp add: bind_unbind)

text \<open>
  What a raw request gives the client. An answer starts with the function code of the request.
  If the device answers with another function code, the client takes it for a Modbus exception
  exactly when it is the request's code with the high bit set and the exception code is not zero;
  every other mismatch is a closed transport, which the caller may retry and answers with the
  gateway exception.
\<close>

lemma raw_answers_classified:
  assumes "Encode (FunctionCode req) (drop 1 (PDU req)) = Inr adu" and "Send adu = Inr ans"
    and "Verify adu ans = None" and "Decode ans = Inr (fc, data)"
    and "PDU req \<noteq> []" and "PDU req ! 0 = FunctionCode req"
  shows "if fc = FunctionCode req
    then SendRawOn Encode Send Verify Decode (PDU req) = Inr (FunctionCode req # data)
    else (\<exists>err. SendRawOn Encode Send Verify Decode (PDU req) = Inl err \<and>
        classifyError (classifyRequestPathError req (Some err)) =
          (if fc = FunctionCode req OR 0x80 \<and> data \<noteq> [] \<and> data ! 0 \<noteq> 0
           then (ErrorProtocolException, data ! 0) else (ErrorTransportClosed, 0)))"
proof -
  have run: "SendRawOn Encode Send Verify Decode (PDU req) =
      (if fc \<noteq> FunctionCode req then Inl (MbError fc (if length data > 0 then data ! 0 else 0)) else Inr (fc # data))"
    using assms by (simp add: SendRawOn_def)
  show ?thesis
    by (simp add: run classifyRequestPathError_def errorsAs_def classifyError_def errorsIs_def)
qed

end
