(* ===== verification/Cache_Refinement.thy ===== *)
theory Cache_Refinement
  imports Cache_Store
begin

text \<open>
  An abstract specification of the cache of \<^verbatim>\<open>internal/cache/cache.go\<close> and the proof
  that the cache implements it. The specification has no keys, entries or cleanup: it is the
  history of the range operations, and the value of a register is what the last operation that
  touched the register left there. The cache's string keys, its per-register entries and its
  background cleanup refine it.
\<close>

subsection \<open>Histories\<close>

text \<open>The operations that change the cache; a history has its newest operation first.\<close>

datatype cache_op =
    Store time byte byte u16 "bytes list"
  | Discard byte byte u16 u16
  | Sweep "string \<Rightarrow> time"

fun run_op :: "cache_op \<Rightarrow> cache \<Rightarrow> cache" where
  "run_op (Store now s f a vs) c = SetRange now c s f a vs"
| "run_op (Discard s f a q) c = DeleteRange c s f a q"
| "run_op (Sweep now) c = cleanupOnce now c"

text \<open>What the last operation on a register left: its value and when it was stored.\<close>

fun latest :: "cache_op list \<Rightarrow> byte \<Rightarrow> byte \<Rightarrow> u16 \<Rightarrow> (bytes \<times> time) option" where
  "latest [] s f x = None"
| "latest (Store now s' f' a vs # h) s f x =
     (if s' = s \<and> f' = f \<and> in_range a (length vs) x then Some (vs ! unat (x - a), now) else latest h s f x)"
| "latest (Discard s' f' a q # h) s f x =
     (if s' = s \<and> f' = f \<and> in_range a (unat q) x then None else latest h s f x)"
| "latest (Sweep now # h) s f x = latest h s f x"

definition unexpired :: "duration \<Rightarrow> time \<Rightarrow> (bytes \<times> time) option \<Rightarrow> bytes option" where
  "unexpired ttl now r = (case r of
     None \<Rightarrow> None
   | Some (v, t) \<Rightarrow> if sint ttl < sint (time_sub now t) then None else Some v)"

text \<open>The range lookups of the specification.\<close>

definition spec_fresh :: "duration \<Rightarrow> (nat \<Rightarrow> time) \<Rightarrow> cache_op list \<Rightarrow> byte \<Rightarrow> byte \<Rightarrow> u16 \<Rightarrow> u16 \<Rightarrow> bytes list option" where
  "spec_fresh ttl clock h s f a q =
     (if q = 0 then None
      else those (map (\<lambda>j. unexpired ttl (clock j) (latest h s f (a + of_nat j))) [0..<unat q]))"

definition spec_stale :: "cache_op list \<Rightarrow> byte \<Rightarrow> byte \<Rightarrow> u16 \<Rightarrow> u16 \<Rightarrow> bytes list option" where
  "spec_stale h s f a q =
     (if q = 0 then None
      else those (map (\<lambda>j. map_option fst (latest h s f (a + of_nat j))) [0..<unat q]))"

fun sweeps :: "cache_op list \<Rightarrow> (string \<Rightarrow> time) set" where
  "sweeps [] = {}"
| "sweeps (Sweep now # h) = insert now (sweeps h)"
| "sweeps (_ # h) = sweeps h"

fun storable :: "cache_op \<Rightarrow> bool" where
  "storable (Store now s f a vs) = (length vs \<le> 65536)"
| "storable _ = True"

subsection \<open>Simulation\<close>

text \<open>
  An entry is the last value of its register; where there is no entry the history has no value, or
  one that had expired when a cleanup pass saw it.
\<close>

definition swept :: "duration \<Rightarrow> (string \<Rightarrow> time) set \<Rightarrow> time \<Rightarrow> bool" where
  "swept ttl S t \<longleftrightarrow> (\<exists>now \<in> S. \<exists>k. sint ttl < sint (time_sub (now k) t))"

definition slot_ok :: "duration \<Rightarrow> bool \<Rightarrow> (string \<Rightarrow> time) set \<Rightarrow> (bytes \<times> time) option \<Rightarrow> entry option \<Rightarrow> bool" where
  "slot_ok ttl stale S last_value r = (case r of
     Some e \<Rightarrow> last_value = Some (entData e, Timestamp e) \<and> TTL e = ttl
   | None \<Rightarrow> (case last_value of None \<Rightarrow> True | Some (v, t) \<Rightarrow> \<not> stale \<and> swept ttl S t))"

definition implements :: "duration \<Rightarrow> bool \<Rightarrow> cache_op list \<Rightarrow> cache \<Rightarrow> bool" where
  "implements ttl stale h c \<longleftrightarrow> defaultTTL c = ttl \<and> keepStale c = stale \<and>
     (\<forall>s f x. slot_ok ttl stale (sweeps h) (latest h s f x) (slot c s f x))"

lemma slot_ok_None [simp]: "slot_ok ttl stale S None None"
  by (simp add: slot_ok_def)

lemma slot_ok_Some [simp]:
  "slot_ok ttl stale S (Some (v, t)) (Some \<lparr>entData = v, Timestamp = t, TTL = ttl\<rparr>)"
  by (simp add: slot_ok_def)

lemma SetRange_frame [simp]:
  "defaultTTL (SetRange now c s f a vs) = defaultTTL c" "keepStale (SetRange now c s f a vs) = keepStale c"
  by (simp_all add: SetRange_def)

lemma slot_ok_sweep:
  assumes "slot_ok ttl stale S l r" and "stale \<Longrightarrow> r' = r"
    and "\<not> stale \<Longrightarrow> r' = (case r of None \<Rightarrow> None | Some e \<Rightarrow> if IsExpired (now k) e then None else Some e)"
  shows "slot_ok ttl stale (insert now S) l r'"
  using assms by (cases stale) (auto simp: slot_ok_def swept_def IsExpired_def split: option.splits)

lemma implements_New: "implements ttl stale [] (NewCache ttl stale)"
  by (simp add: implements_def NewCache_def slot_def)

lemma implements_Store:
  assumes "implements ttl stale h c" and "length vs \<le> 65536"
  shows "implements ttl stale (Store now s f a vs # h) (SetRange now c s f a vs)"
  using assms(1) by (auto simp: implements_def slot_SetRange [OF assms(2)])

lemma implements_Discard:
  assumes "implements ttl stale h c"
  shows "implements ttl stale (Discard s f a q # h) (DeleteRange c s f a q)"
  using assms by (auto simp: implements_def slot_DeleteRange)

lemma implements_Sweep:
  assumes "implements ttl stale h c"
  shows "implements ttl stale (Sweep now # h) (cleanupOnce now c)"
proof -
  have "slot_ok ttl stale (insert now (sweeps h)) (latest h s f x) (slot (cleanupOnce now c) s f x)" for s f x
  proof (rule slot_ok_sweep)
    show "slot_ok ttl stale (sweeps h) (latest h s f x) (slot c s f x)"
      using assms by (simp add: implements_def)
  qed (use assms in \<open>auto simp: implements_def cleanupOnce_def slot_def\<close>)
  then show ?thesis using assms by (simp add: implements_def cleanupOnce_def)
qed

lemma implements_run:
  "list_all storable h \<Longrightarrow> implements ttl stale h (foldr run_op h (NewCache ttl stale))"
proof (induction h)
  case (Cons op1 h)
  then show ?case
    by (cases op1) (simp_all add: implements_Store implements_Discard implements_Sweep)
qed (simp add: implements_New)

lemma those_Some_iff: "those xs = Some ys \<longleftrightarrow> xs = map Some ys"
proof (induction xs arbitrary: ys)
  case (Cons x xs)
  then show ?case by (cases ys) (auto split: option.split)
qed auto

lemma those_index:
  "those (map g [0..<n]) = Some vs \<longleftrightarrow> length vs = n \<and> (\<forall>j < n. g j = Some (vs ! j))"
  by (auto simp: those_Some_iff list_eq_iff_nth_eq)

text \<open>Reading one register at a time not earlier than the cleanup passes of the history.\<close>

lemma time_sub_mono: "t \<le> u \<Longrightarrow> sint (time_sub t v) \<le> sint (time_sub u v)"
  by (simp add: sint_time_sub)

lemma slot_ok_fresh:
  assumes "slot_ok ttl stale S l r" and "\<forall>now \<in> S. \<forall>k. now k \<le> t"
  shows "(\<exists>e. r = Some e \<and> \<not> IsExpired t e \<and> v = entData e) \<longleftrightarrow> unexpired ttl t l = Some v"
proof (cases r)
  case None
  show ?thesis
  proof (cases l)
    case (Some vt)
    obtain v' t0 where l: "l = Some (v', t0)" using Some by (cases vt) auto
    with assms(1) None obtain now k where "now \<in> S" "sint ttl < sint (time_sub (now k) t0)"
      by (auto simp: slot_ok_def swept_def)
    moreover have "sint (time_sub (now k) t0) \<le> sint (time_sub t t0)"
      using assms(2) \<open>now \<in> S\<close> by (intro time_sub_mono) simp
    ultimately show ?thesis using None l by (simp add: unexpired_def)
  qed (simp add: None unexpired_def)
next
  case (Some e)
  with assms(1) show ?thesis by (auto simp: slot_ok_def unexpired_def IsExpired_def)
qed

lemma slot_ok_stale:
  "slot_ok ttl True S l r \<Longrightarrow> (\<exists>e. r = Some e \<and> v = entData e) \<longleftrightarrow> map_option fst l = Some v"
  by (auto simp: slot_ok_def split: option.splits)

subsection \<open>Properties\<close>

text \<open>
  C4: The cache implements the history specification. After any sequence of stores, invalidations
  and cleanup passes on a new cache, a range lookup with TTL returns what the specification says:
  for each register the value of the last operation on it, if none of them is missing or older than the TTL.
  The lookup happens no earlier than the cleanup passes; with stale serving on, the stale lookup
  returns the last values whatever their age, cleanup or not.
\<close>

theorem cache_refines_history:
  assumes "list_all storable h" and "\<forall>now \<in> sweeps h. \<forall>k j. now k \<le> clock j"
  shows "GetRange clock (foldr run_op h (NewCache ttl stale)) s f a q = spec_fresh ttl clock h s f a q \<and>
    (stale \<longrightarrow> GetRangeStale (foldr run_op h (NewCache ttl stale)) s f a q = spec_stale h s f a q)"
proof -
  let ?c = "foldr run_op h (NewCache ttl stale)"
  have ok: "slot_ok ttl stale (sweeps h) (latest h s f x) (slot ?c s f x)" for x
    using implements_run [OF assms(1)] by (simp add: implements_def)
  have "GetRange clock ?c s f a q = Some vs \<longleftrightarrow> spec_fresh ttl clock h s f a q = Some vs" for vs
    using slot_ok_fresh [OF ok] assms(2)
    by (auto simp: GetRange_iff spec_fresh_def those_index simp del: upt_Suc)
  then have "GetRange clock ?c s f a q = spec_fresh ttl clock h s f a q"
    by (metis not_Some_eq)
  moreover
  have "GetRangeStale ?c s f a q = Some vs \<longleftrightarrow> spec_stale h s f a q = Some vs" if "stale" for vs
  proof -
    have "slot_ok ttl True (sweeps h) (latest h s f x) (slot ?c s f x)" for x using ok that by simp
    from slot_ok_stale [OF this] show ?thesis
      by (auto simp: GetRangeStale_iff spec_stale_def those_index simp del: upt_Suc)
  qed
  then have "stale \<Longrightarrow> GetRangeStale ?c s f a q = spec_stale h s f a q"
    by (metis not_Some_eq)
  ultimately show ?thesis by blast
qed

theorem cache_refines_history_witness:
  "GetRange (\<lambda>_. 9) (foldr run_op [Sweep (\<lambda>_. 8), Discard 1 3 101 1, Store 5 1 3 100 [[0, 1], [0, 2]]] (NewCache 10 False))
     1 3 100 2 =
   spec_fresh 10 (\<lambda>_. 9) [Sweep (\<lambda>_. 8), Discard 1 3 101 1, Store 5 1 3 100 [[0, 1], [0, 2]]] 1 3 100 2"
  by (rule cache_refines_history [THEN conjunct1]) simp_all

end
