(* ===== verification/Coalesce_Refinement.thy ===== *)
theory Coalesce_Refinement
  imports Cache_Coalesce
begin

text \<open>
  The two models of \<^verbatim>\<open>CoalesceWithStatus\<close> agree: whatever the interleaving of the callers,
  a caller that returns has run the sequential function \<open>CoalesceWithStatus\<close> on what it
  observed, and everything it observed was there: context errors are the caller's own, a leader's
  outcome is the outcome of a fetch for the same key, and its own fetch is one of the fetches.
\<close>

subsection \<open>Observations\<close>

text \<open>An iteration in which the leader ended with a context error, so that the loop goes on.\<close>

definition retry_iter :: "cstate \<Rightarrow> string \<Rightarrow> coalesce_iter \<Rightarrow> bool" where
  "retry_iter s k it \<longleftrightarrow> ctxTop it = None \<and> inFlight it \<and> ctxJoined it = None \<and> selected it = ReqDone \<and>
     ctxAfterWait it = None \<and> ctxAfterFetch it = None \<and>
     (\<exists>rid e. leaderErr it = Some e \<and> isContextError e \<and> (rid, k, leaderResult it, leaderErr it) \<in> fetches s)"

text \<open>The error an own fetch with result \<open>r\<close> ends with, given the context afterwards.\<close>

definition fetch_error :: "goerror + bytes \<Rightarrow> goerror option \<Rightarrow> goerror option" where
  "fetch_error r ctx = (case r of Inl e \<Rightarrow> Some e | Inr x \<Rightarrow> ctx)"

definition own_fetch :: "cstate \<Rightarrow> string \<Rightarrow> goerror + bytes \<Rightarrow> goerror option \<Rightarrow> bool" where
  "own_fetch s k r ctx \<longleftrightarrow> (\<exists>rid x. (rid, k, x, fetch_error r ctx) \<in> fetches s \<and> (\<forall>y. r = Inr y \<longrightarrow> y = x))"

text \<open>What the caller \<open>p\<close> saw in an iteration is justified by the state of the system.\<close>

definition justified :: "cstate \<Rightarrow> nat \<Rightarrow> string \<Rightarrow> goerror + bytes \<Rightarrow> coalesce_iter \<Rightarrow> bool" where
  "justified s p k r it \<longleftrightarrow>
     (\<forall>e. Some e \<in> {ctxTop it, ctxJoined it, ctxAfterWait it, ctxAfterFetch it} \<or> selected it = CtxDone e \<longrightarrow>
        ctxs s p = Some e) \<and>
     (ctxTop it = None \<and> inFlight it \<and> ctxJoined it = None \<and> selected it = ReqDone \<longrightarrow>
        (\<exists>rid. (rid, k, leaderResult it, leaderErr it) \<in> fetches s)) \<and>
     (ctxTop it = None \<and> \<not> inFlight it \<longrightarrow> own_fetch s k r (ctxAfterFetch it))"

text \<open>The iterations so far, with the wait they add up to.\<close>

definition waited_for :: "cstate \<Rightarrow> string \<Rightarrow> bool \<Rightarrow> duration \<Rightarrow> coalesce_iter list \<Rightarrow> bool" where
  "waited_for s k w d its \<longleftrightarrow> (\<forall>it \<in> set its. retry_iter s k it) \<and> (w \<longleftrightarrow> its \<noteq> []) \<and>
     d = sum_list (map waitedFor its)"

lemma CoalesceWithStatus_retries:
  assumes "\<forall>it \<in> set its. retry_iter s k it"
  shows "CoalesceWithStatus (its @ rest) w d f u =
    CoalesceWithStatus rest (w \<or> its \<noteq> []) (d + sum_list (map waitedFor its)) f u"
  using assms
proof (induction its arbitrary: w d)
  case (Cons it its)
  then have "retry_iter s k it" by simp
  with Cons show ?case by (auto simp: retry_iter_def Let_def add.assoc)
qed simp

text \<open>A run of the sequential function that ends with \<open>(r, cr)\<close> on justified observations.\<close>

definition sequential_run :: "cstate \<Rightarrow> nat \<Rightarrow> string \<Rightarrow> goerror + bytes \<Rightarrow> coalesceResult \<Rightarrow> bool" where
  "sequential_run s p k r cr \<longleftrightarrow> (\<exists>its own. (\<forall>it \<in> set its. justified s p k own it) \<and>
     CoalesceWithStatus its False 0 (\<lambda>u. (own, u)) () = Some ((r, cr), ()))"

lemma retry_iter_justified: "retry_iter s k it \<Longrightarrow> justified s p k r it"
  by (auto simp: retry_iter_def justified_def)

lemma sequential_runI:
  assumes "waited_for s k w d its" and "justified s p k own it"
    and "CoalesceWithStatus [it] w d (\<lambda>u. (own, u)) () = Some ((r, cr), ())"
  shows "sequential_run s p k r cr"
proof -
  have "CoalesceWithStatus (its @ [it]) False 0 (\<lambda>u. (own, u)) () = Some ((r, cr), ())"
    using assms(1,3) CoalesceWithStatus_retries [of its s k "[it]" False 0 "\<lambda>u. (own, u)" "()"]
    by (simp add: waited_for_def del: CoalesceWithStatus.simps)
  moreover have "\<forall>i \<in> set (its @ [it]). justified s p k own i"
    using assms(1,2) retry_iter_justified by (auto simp: waited_for_def)
  ultimately show ?thesis unfolding sequential_run_def by blast
qed

subsection \<open>The invariant\<close>

fun observed :: "cstate \<Rightarrow> nat \<Rightarrow> pc \<Rightarrow> bool" where
  "observed s p Idle \<longleftrightarrow> True"
| "observed s p (Top k w d) \<longleftrightarrow> (\<exists>its. waited_for s k w d its)"
| "observed s p (Locking k w d) \<longleftrightarrow> (\<exists>its. waited_for s k w d its)"
| "observed s p (Joined k rid d) \<longleftrightarrow> (\<exists>w its. waited_for s k w d its)"
| "observed s p (Leading k rid w d) \<longleftrightarrow> (\<exists>its. waited_for s k w d its)"
| "observed s p (Fetched k rid w d x e) \<longleftrightarrow> sequential_run s p k (leader_return w d x e)
     \<lparr>Coalesced = False, Waited = w, WaitDuration = d\<rparr>"
| "observed s p (Published k rid w d x e) \<longleftrightarrow> sequential_run s p k (leader_return w d x e)
     \<lparr>Coalesced = False, Waited = w, WaitDuration = d\<rparr>"
| "observed s p (Removed k rid w d x e) \<longleftrightarrow> sequential_run s p k (leader_return w d x e)
     \<lparr>Coalesced = False, Waited = w, WaitDuration = d\<rparr>"
| "observed s p (Ret k r cr) \<longleftrightarrow> sequential_run s p k r cr"

text \<open>Observations stay justified: fetches are only added, and a context that is over stays so.\<close>

definition extends :: "cstate \<Rightarrow> cstate \<Rightarrow> bool" where
  "extends s t \<longleftrightarrow> fetches s \<subseteq> fetches t \<and> (\<forall>p e. ctxs s p = Some e \<longrightarrow> ctxs t p = Some e)"

lemma cstep_extends: "cstep p s t \<Longrightarrow> extends s t"
  by (induction rule: cstep.induct) (auto simp: extends_def)

lemma retry_iter_mono: "extends s t \<Longrightarrow> retry_iter s k it \<Longrightarrow> retry_iter t k it"
  by (auto simp: extends_def retry_iter_def)

lemma justified_mono:
  assumes "extends s t" and "justified s p k r it"
  shows "justified t p k r it"
proof -
  have "own_fetch s k r c \<Longrightarrow> own_fetch t k r c" for c
    using assms(1) unfolding extends_def own_fetch_def by blast
  with assms show ?thesis unfolding justified_def extends_def by (meson subsetD)
qed

lemma sequential_run_mono: "extends s t \<Longrightarrow> sequential_run s p k r cr \<Longrightarrow> sequential_run t p k r cr"
  unfolding sequential_run_def using justified_mono by blast

lemma waited_for_mono: "extends s t \<Longrightarrow> waited_for s k w d its \<Longrightarrow> waited_for t k w d its"
  using retry_iter_mono by (auto simp: waited_for_def)

lemma observed_mono: "extends s t \<Longrightarrow> observed s p c \<Longrightarrow> observed t p c"
  by (cases c) (auto intro: waited_for_mono sequential_run_mono)

lemma waited_for_start: "waited_for s k False 0 []"
  by (simp add: waited_for_def)

lemma waited_for_again:
  assumes "waited_for s k w d its" and "(rid, k, x, Some e) \<in> fetches s" and "isContextError e"
  shows "\<exists>its. waited_for s k True (d + t) its"
proof -
  let ?it = "\<lparr>ctxTop = None, inFlight = True, ctxJoined = None, selected = ReqDone, waitedFor = t, ctxAfterWait = None,
    leaderErr = Some e, leaderResult = x, ctxAfterFetch = None\<rparr>"
  have "retry_iter s k ?it" using assms(2,3) by (auto simp: retry_iter_def)
  with assms(1) have "waited_for s k True (d + t) (its @ [?it])" by (auto simp: waited_for_def)
  then show ?thesis by blast
qed

text \<open>The last iteration, one lemma for each way out of the loop.\<close>

lemma run_top_ctx:
  assumes "waited_for s k w d its" and "ctxs s p = Some e"
  shows "sequential_run s p k (Inl (if w then attributedCoalescingError e False d else e))
    \<lparr>Coalesced = False, Waited = w, WaitDuration = d\<rparr>"
  by (rule sequential_runI [OF assms(1), where own = "Inr []" and it = "\<lparr>ctxTop = Some e, inFlight = True,
        ctxJoined = None, selected = ReqDone, waitedFor = 0, ctxAfterWait = None, leaderErr = None, leaderResult = [],
        ctxAfterFetch = None\<rparr>"]) (use assms(2) in \<open>simp_all add: justified_def\<close>)

lemma run_join_ctx:
  assumes "waited_for s k w d its" and "ctxs s p = Some e"
  shows "sequential_run s p k (Inl (attributedCoalescingError e True (d + t)))
    \<lparr>Coalesced = True, Waited = True, WaitDuration = d + t\<rparr>"
  by (rule sequential_runI [OF assms(1), where own = "Inr []" and it = "\<lparr>ctxTop = None, inFlight = True,
        ctxJoined = Some e, selected = ReqDone, waitedFor = t, ctxAfterWait = None, leaderErr = None, leaderResult = [],
        ctxAfterFetch = None\<rparr>"]) (use assms(2) in \<open>simp_all add: justified_def Let_def\<close>)

lemma run_followed:
  assumes "waited_for s k w d its" and "(rid, k, x, err) \<in> fetches s" and "\<forall>e. err = Some e \<longrightarrow> \<not> isContextError e"
  shows "sequential_run s p k (case err of None \<Rightarrow> Inr x | Some e \<Rightarrow> Inl (attributedCoalescingError e True (d + t)))
    \<lparr>Coalesced = True, Waited = True, WaitDuration = d + t\<rparr>"
  by (rule sequential_runI [OF assms(1), where own = "Inr []" and it = "\<lparr>ctxTop = None, inFlight = True,
        ctxJoined = None, selected = ReqDone, waitedFor = t, ctxAfterWait = None, leaderErr = err, leaderResult = x,
        ctxAfterFetch = None\<rparr>"])
    (use assms(2,3) in \<open>auto simp: justified_def Let_def split: option.split\<close>)

lemma run_led:
  assumes "waited_for s k w d its" and "(rid, k, x, err) \<in> fetches s"
    and "err = (case ferr of None \<Rightarrow> ctxs s p | Some e \<Rightarrow> Some e)"
  shows "sequential_run s p k (leader_return w d x err) \<lparr>Coalesced = False, Waited = w, WaitDuration = d\<rparr>"
  by (rule sequential_runI [OF assms(1), where own = "case ferr of None \<Rightarrow> Inr x | Some e \<Rightarrow> Inl e"
        and it = "\<lparr>ctxTop = None, inFlight = False, ctxJoined = None, selected = ReqDone, waitedFor = 0,
        ctxAfterWait = None, leaderErr = None, leaderResult = [],
        ctxAfterFetch = (case ferr of None \<Rightarrow> ctxs s p | Some e \<Rightarrow> None)\<rparr>"])
    (use assms(2,3) in \<open>auto simp: justified_def own_fetch_def fetch_error_def leader_return_def Let_def
      split: option.splits\<close>)

text \<open>A leader's outcome that a follower reads is a fetch of the follower's key.\<close>

lemma joined_fetch:
  assumes "results_inv s" and "objects_inv s" and "procs s p = Joined k rid d" and "reqs s rid = Some r" and "rdone r"
  shows "(rid, k, rresult r, rerr r) \<in> fetches s"
  using assms objects_invD(2) [OF assms(2,3)] by (auto simp: results_inv_def)

lemma observed_step:
  assumes "cstep p s t" and "results_inv s" and "objects_inv s" and "observed s p (procs s p)"
  shows "observed t p (procs t p)"
proof -
  have ext: "extends s t" using cstep_extends assms(1) .
  have old: "observed t p (procs s p)" using observed_mono [OF ext assms(4)] .
  have fetched: "procs s p = Joined k rid d \<Longrightarrow> reqs s rid = Some r \<Longrightarrow> rdone r \<Longrightarrow>
      (rid, k, rresult r, rerr r) \<in> fetches t" for k rid d r
    using joined_fetch [OF assms(2,3)] ext by (auto simp: extends_def)
  have ctx: "ctxs s p = Some e \<Longrightarrow> ctxs t p = Some e" for e using ext by (simp add: extends_def)
  show ?thesis using assms(1)
  proof (cases rule: cstep.cases)
    case (call k)
    then show ?thesis using waited_for_start by auto
  next
    case (top_ctx k w d e)
    have pt: "procs t p = Ret k (Inl (if w then attributedCoalescingError e False d else e)) \<lparr>Coalesced = False, Waited = w, WaitDuration = d\<rparr>" using top_ctx by simp
    obtain its where "waited_for t k w d its" using old top_ctx by auto
    show ?thesis unfolding pt observed.simps by (rule run_top_ctx [OF \<open>waited_for t k w d its\<close> ctx [OF top_ctx(3)]])
  next
    case (join_ctx k rid d e x)
    have pt: "procs t p = Ret k (Inl (attributedCoalescingError e True (d + x))) \<lparr>Coalesced = True, Waited = True, WaitDuration = d + x\<rparr>" using join_ctx by simp
    obtain w its where "waited_for t k w d its" using old join_ctx by auto
    show ?thesis unfolding pt observed.simps by (rule run_join_ctx [OF \<open>waited_for t k w d its\<close> ctx [OF join_ctx(3)]])
  next
    case (join_data k rid d r x)
    have pt: "procs t p = Ret k (Inr (rresult r)) \<lparr>Coalesced = True, Waited = True, WaitDuration = d + x\<rparr>" using join_data by simp
    obtain w its where w: "waited_for t k w d its" using old join_data by auto
    show ?thesis unfolding pt observed.simps using run_followed [OF w, of rid "rresult r" None p x] fetched [OF join_data(2,4,5)] join_data(6) by simp
  next
    case (join_err k rid d r e x)
    have pt: "procs t p = Ret k (Inl (attributedCoalescingError e True (d + x))) \<lparr>Coalesced = True, Waited = True, WaitDuration = d + x\<rparr>" using join_err by simp
    obtain w its where w: "waited_for t k w d its" using old join_err by auto
    show ?thesis unfolding pt observed.simps using run_followed [OF w, of rid "rresult r" "Some e" p x] fetched [OF join_err(2,4,5)] join_err(6,7) by simp
  next
    case (join_retry k rid d r e x)
    have pt: "procs t p = Top k True (d + x)" using join_retry by simp
    obtain w its where w: "waited_for t k w d its" using old join_retry by auto
    have f: "(rid, k, rresult r, Some e) \<in> fetches t" using fetched [OF join_retry(2,4,5)] join_retry(6) by simp
    show ?thesis unfolding pt observed.simps by (rule waited_for_again [OF w f join_retry(7)])
  next
    case (fetch k rid w d err ferr data)
    have pt: "procs t p = Fetched k rid w d data err" using fetch by simp
    obtain its where w: "waited_for t k w d its" using old fetch by auto
    have "(rid, k, data, err) \<in> fetches t" "err = (case ferr of None \<Rightarrow> ctxs t p | Some e \<Rightarrow> Some e)"
      using fetch by (auto split: option.split)
    note led = run_led [OF w this]
    show ?thesis unfolding pt observed.simps by (rule led)
  qed (use old in auto)
qed

lemma creachable_observed: "creachable s \<Longrightarrow> observed s p (procs s p)"
proof (induction rule: creachable.induct)
  case start
  show ?case by (simp add: cinit_def)
next
  case (step s q t)
  show ?case
  proof (cases "q = p")
    case True
    then show ?thesis using observed_step step creachable_inv by blast
  next
    case False
    have "procs t p = procs s p" using step.hyps(2) False by (cases rule: cstep.cases) auto
    then show ?thesis using observed_mono [OF cstep_extends [OF step.hyps(2)] step.IH] by simp
  qed
qed

subsection \<open>Property\<close>



end
