(* ===== verification/Client_Health.thy ===== *)
theory Client_Health
  imports Client_Runs
begin

text \<open>
  The health record of the upstream client (\<^verbatim>\<open>internal/modbus/client.go\<close>) over whole
  runs: the retry counters against the log, the failure streak and its timestamps.
\<close>

subsection \<open>The retry counters and the log\<close>

definition retry_records :: "log_record list \<Rightarrow> nat" where
  "retry_records l = length (filter (\<lambda>r. recMessage r = ''upstream request attempt failed'') l)"

definition recovered_records :: "log_record list \<Rightarrow> nat" where
  "recovered_records l = length (filter (\<lambda>r. recMessage r = ''upstream request completed'' \<and>
     logValue r ''attempts'' \<noteq> Some (VInt 1)) l)"

text \<open>What the counters say beyond the log does not change.\<close>

definition counted :: "world \<Rightarrow> world \<Rightarrow> bool" where
  "counted w w' \<longleftrightarrow>
     totalRetries (wclient w') - of_nat (retry_records (wlog w')) =
       totalRetries (wclient w) - of_nat (retry_records (wlog w)) \<and>
     recoveredRetries (wclient w') - of_nat (recovered_records (wlog w')) =
       recoveredRetries (wclient w) - of_nat (recovered_records (wlog w))"

lemma record_messages:
  "recMessage (logFailure req n t x b) =
     (if b then ''upstream request attempt failed'' else ''upstream request failed'')"
  "recMessage (logSuccess req n t) = ''upstream request completed''"
  "logValue (logSuccess req n t) ''attempts'' = Some (VInt n)"
  by (simp_all add: logFailure_def logSuccess_def requestAttrs_def Let_def split_beta)

lemmas counted_defs = counted_def retry_records_def recovered_records_def record_messages

interpretation cl: request_guarantee counted "\<lambda>_. True"
proof (unfold_locales, goal_cases)
  case (8 x m t)
  then show ?case by (auto simp: keeps_def finalError_def Let_def wp_simps counted_defs)
next
  case (13 e a w req t)
  then show ?case by (auto simp: recordSuccess_def wp_simps counted_defs)
next
  case (10 e)
  then show ?case by (auto simp: keeps_def recordFirstFailure_def wp_simps counted_defs)
qed (auto simp: counted_defs request_messages_def)

subsection \<open>The health record\<close>

text \<open>
  The failure streak has a start exactly while it has a length, it started after the last success
  of a first attempt, and no timestamp is in the future.
\<close>

definition record_ok :: "(nat \<Rightarrow> time) \<Rightarrow> world \<Rightarrow> bool" where
  "record_ok clk w \<longleftrightarrow> (let c = wclient w; now = clk (wtick w) in
     0 \<le> firstFailures c \<and> 0 \<le> finalFailures c \<and> (firstFailureAt c = 0 \<longleftrightarrow> firstFailures c = 0) \<and>
     firstFailureAt c \<le> now \<and> (firstFailureAt c \<noteq> 0 \<longrightarrow> lastFirstSuccess c \<le> firstFailureAt c) \<and>
     lastFirstSuccess c \<le> lastSuccess c \<and> lastSuccess c \<le> now \<and> degradedWindow c = degradedHealthWindow)"

definition record_kept :: "(nat \<Rightarrow> time) \<Rightarrow> world \<Rightarrow> world \<Rightarrow> bool" where
  "record_kept clk w w' \<longleftrightarrow> steady clk \<longrightarrow> record_ok clk w \<longrightarrow> record_ok clk w'"

lemmas record_defs = record_kept_def record_ok_def Let_def

lemma record_kept_tick: "record_kept clk w (w\<lparr>wtick := Suc (wtick w)\<rparr>)"
  using steady_step(1) [of clk "wtick w"] by (auto simp: record_defs)

lemma record_kept_final: "keeps (record_kept clk) (finalError x m t)"
  by (auto simp: keeps_def finalError_def wp_simps record_defs)

lemma record_kept_first: "clockAt e = clk \<Longrightarrow> keeps (record_kept clk) (recordFirstFailure e)"
  unfolding keeps_def
proof
  fix w :: world
  assume "clockAt e = clk"
  then show "wp (recordFirstFailure e) (\<lambda>_. record_kept clk w) w"
    using steady_step [of clk "wtick w"]
    by (auto simp: recordFirstFailure_def IsZero_def wp_simps record_defs)
qed

lemma record_kept_success:
  assumes "clockAt e = clk"
  shows "wp (recordSuccess a (clockAt e (wtick w)))
    (\<lambda>_ w'. record_kept clk w (w'\<lparr>wlog := logSuccess req (int a) t # wlog w'\<rparr>)) (w\<lparr>wtick := Suc (wtick w)\<rparr>)"
  using steady_step [of clk "wtick w"] steady_step(1) [of clk "wtick w"] assms
  by (auto simp: recordSuccess_def wp_simps record_defs)

interpretation hr: request_guarantee "record_kept clk" "\<lambda>e. clockAt e = clk" for clk
proof (unfold_locales, goal_cases)
  case 3 then show ?case by (rule record_kept_tick)
next
  case 8 then show ?case by (rule record_kept_final)
next
  case 10 then show ?case by (rule record_kept_first)
next
  case 13 then show ?case by (rule record_kept_success)
qed (auto simp: record_defs)

subsection \<open>Properties\<close>



text \<open>
  C39: The retry counters of the health report agree with the log in every state the client can
  reach: the number of retries is the number of records of failed attempts that announce a retry,
  and the number of recovered retries is the number of records of requests completed on a later
  attempt (both counters are 64-bit and wrap).
\<close>

theorem retry_counters_match_log:
  assumes "client_run (\<lambda>e. True) (started addr attempt_timeout rd cd k) w"
  shows "totalRetries (wclient w) = of_nat (retry_records (wlog w)) \<and>
    recoveredRetries (wclient w) = of_nat (recovered_records (wlog w))"
  using cl.guaranteed [OF assms] by (simp add: counted_defs started_def NewClient_def)

theorem retry_counters_match_log_witness:
  "\<exists>w'. snd (run_state (Execute live_env (Some demo_request)) (started ''dev:502'' second 0 0 0)) = w' \<and>
     totalRetries (wclient w') = of_nat (retry_records (wlog w'))"
proof -
  obtain w' where w': "run_state (Execute live_env (Some demo_request)) (started ''dev:502'' second 0 0 0) =
      (Some (Inr (buildResponse demo_request [0, 7])), w')" by (rule live_run)
  have "client_run (\<lambda>e. True) (started ''dev:502'' second 0 0 0) w'"
    using client_run.run_start TrueI w' by (rule client_run.run_execute)
  from retry_counters_match_log [OF this] w' show ?thesis by simp
qed

end
