(* ===== verification/Client_Pacing.thy ===== *)
theory Client_Pacing
  imports Client_Runs
begin

text \<open>
  The pacing of requests by the upstream client (\<^verbatim>\<open>internal/modbus/client.go\<close>,
  \<^verbatim>\<open>waitForRequestSlot\<close> and the slot set by \<^verbatim>\<open>Execute\<close>): after a successful
  request nothing is sent to the device for the request delay.
\<close>

subsection \<open>Pacing\<close>

text \<open>The client waits, dials and fails without sending and without moving the request slot.\<close>

definition unsent :: "world \<Rightarrow> world \<Rightarrow> bool" where
  "unsent w w' \<longleftrightarrow> wtick w \<le> wtick w' \<and> nextRequestAt (wclient w') = nextRequestAt (wclient w) \<and>
     requestDelay (wclient w') = requestDelay (wclient w) \<and>
     (\<exists>d. wtrace w' = d @ wtrace w \<and> (\<forall>ev \<in> set d. \<not> is_sent ev))"

lemma unsent_same_trace:
  "wtick w \<le> wtick w' \<Longrightarrow> nextRequestAt (wclient w') = nextRequestAt (wclient w) \<Longrightarrow>
   requestDelay (wclient w') = requestDelay (wclient w) \<Longrightarrow> wtrace w' = wtrace w \<Longrightarrow> unsent w w'"
  by (simp add: unsent_def)

interpretation qt: attempt_guarantee unsent "\<lambda>_. True"
proof (unfold_locales, goal_cases)
  case (2 u v w)
  then show ?case by (fastforce simp: unsent_def)
next
  case (4 ev w)
  then show ?case unfolding unsent_def by (intro conjI exI [of _ "[ev]"]) auto
next
  case (8 x m t)
  then show ?case by (auto simp: keeps_def finalError_def Let_def wp_simps intro!: unsent_same_trace)
next
  case (10 e)
  then show ?case by (auto simp: keeps_def recordFirstFailure_def wp_simps intro!: unsent_same_trace)
qed (auto intro!: unsent_same_trace)

text \<open>
  The environments of a run share one clock, and a timer that fired had its duration: the clock read
  before it was started and the clock read after it fired are that far apart.
\<close>

definition timed :: "(nat \<Rightarrow> time) \<Rightarrow> env \<Rightarrow> bool" where
  "timed clk e \<longleftrightarrow> clockAt e = clk \<and>
     (\<forall>t d. slotAt e (Suc t) d = Fired \<longrightarrow> clk t + sint d \<le> clk (Suc (Suc t)))"

definition slot_due :: "(nat \<Rightarrow> time) \<Rightarrow> world \<Rightarrow> bool" where
  "slot_due clk w \<longleftrightarrow> nextRequestAt (wclient w) \<le> clk (wtick w)"

text \<open>The wait for the slot is short enough not to saturate.\<close>

definition slot_near :: "(nat \<Rightarrow> time) \<Rightarrow> world \<Rightarrow> bool" where
  "slot_near clk w \<longleftrightarrow> nextRequestAt (wclient w) \<le> clk (wtick w) + (2 ^ 63 - 1)"

definition paced :: "(nat \<Rightarrow> time) \<Rightarrow> world \<Rightarrow> world \<Rightarrow> bool" where
  "paced clk w w' \<longleftrightarrow> wtick w \<le> wtick w' \<and> requestDelay (wclient w') = requestDelay (wclient w) \<and>
     nextRequestAt (wclient w) \<le> nextRequestAt (wclient w') \<and>
     nextRequestAt (wclient w') \<le> max (nextRequestAt (wclient w)) (clk (wtick w') + (2 ^ 63 - 1)) \<and>
     (\<exists>d. wtrace w' = d @ wtrace w \<and>
        (\<forall>i t c. Sent i t c \<in> set d \<longrightarrow> nextRequestAt (wclient w) \<le> clk t \<and> t < wtick w'))"

lemma unsent_paced: "unsent w w' \<Longrightarrow> paced clk w w'"
  by (fastforce simp: unsent_def paced_def)

lemma paced_trans:
  assumes "steady clk" and "paced clk u v" and "paced clk v w"
  shows "paced clk u w"
proof -
  obtain d d' where d: "wtrace v = d @ wtrace u" "wtrace w = d' @ wtrace v"
    "\<forall>i t c. Sent i t c \<in> set d \<longrightarrow> nextRequestAt (wclient u) \<le> clk t \<and> t < wtick v"
    "\<forall>i t c. Sent i t c \<in> set d' \<longrightarrow> nextRequestAt (wclient v) \<le> clk t \<and> t < wtick w"
    using assms(2,3) by (auto simp: paced_def)
  have "clk (wtick v) \<le> clk (wtick w)" using assms(3) steady_mono [OF assms(1)] by (simp add: paced_def)
  moreover have "\<forall>i t c. Sent i t c \<in> set (d' @ d) \<longrightarrow> nextRequestAt (wclient u) \<le> clk t \<and> t < wtick w"
    using d(3,4) assms(2,3) by (fastforce simp: paced_def)
  moreover have "wtrace w = (d' @ d) @ wtrace u" using d(1,2) by simp
  ultimately show ?thesis using assms(2,3) unfolding paced_def
    by (intro conjI exI [of _ "d' @ d"]) auto
qed

lemma slot_near_kept:
  assumes "steady clk" and "paced clk w w'" and "slot_near clk w"
  shows "slot_near clk w'"
  using assms steady_mono [OF assms(1), of "wtick w" "wtick w'"] by (auto simp: paced_def slot_near_def)

lemma slot_due_kept: "steady clk \<Longrightarrow> unsent w w' \<Longrightarrow> slot_due clk w \<Longrightarrow> slot_due clk w'"
  using steady_mono [of clk "wtick w" "wtick w'"] by (auto simp: unsent_def slot_due_def)

lemma contextError_due: "steady clk \<Longrightarrow> slot_due clk w \<Longrightarrow> wp (contextError e) (\<lambda>r. slot_due clk) w"
  by (rule wp_keeps [OF qt.keeps_reading(1)]) (rule slot_due_kept)

lemma slot_due_step:
  "steady clk \<Longrightarrow> nextRequestAt (wclient w) \<le> clk t \<Longrightarrow> t \<le> wtick w \<Longrightarrow> slot_due clk w"
  using steady_mono [of clk t "wtick w"] by (auto simp: slot_due_def)

text \<open>After the wait the slot is due.\<close>

lemma waitForRequestSlot_due:
  assumes "steady clk" and "timed clk e" and "slot_near clk w"
  shows "wp (waitForRequestSlot e) (\<lambda>r w'. r = None \<longrightarrow> slot_due clk w') w"
proof -
  let ?at = "nextRequestAt (wclient w)" and ?now = "clk (wtick w)"
  let ?d = "time_sub ?at ?now"
  have ctx: "wp (contextError e) (\<lambda>r w'. r = None \<longrightarrow> slot_due clk w') w'" if "slot_due clk w'" for w'
    using contextError_due [OF assms(1) that] by (rule wp_mono) simp
  have d: "?at \<le> ?now \<longleftrightarrow> ?d \<le>s 0" by (auto simp: word_sle_eq sint_time_sub)
  have fired: "?at \<le> clk (Suc (Suc (wtick w)))" if "\<not> ?at \<le> ?now" "slotAt e (Suc (wtick w)) ?d = Fired"
  proof -
    have "?now + sint ?d \<le> clk (Suc (Suc (wtick w)))" using assms(2) that(2) by (simp add: timed_def)
    moreover have "sint ?d = ?at - ?now" using that(1) assms(3) by (simp add: slot_near_def sint_time_sub)
    ultimately show ?thesis by simp
  qed
  show ?thesis
  proof (cases "?at \<le> ?now")
    case True
    with d have "?d \<le>s 0" by simp
    moreover have "slot_due clk (w\<lparr>wtick := Suc (wtick w)\<rparr>)" using True slot_due_step [OF assms(1)] by simp
    ultimately show ?thesis using assms(2) ctx by (simp add: waitForRequestSlot_def wp_simps timed_def)
  next
    case False
    have "slot_due clk (w'\<lparr>wtick := Suc (Suc (wtick w))\<rparr>)"
      if "wclient w' = wclient w" "slotAt e (Suc (wtick w)) ?d = Fired" for w' :: world
      using fired [OF False that(2)] that(1) by (simp add: slot_due_def)
    with False d show ?thesis using assms(2) ctx
      by (simp add: waitForRequestSlot_def Let_def wp_simps timed_def split: wait_case.split)
  qed
qed

text \<open>An early end of an attempt: a failure of the request, or a retry that still has to wait if it had to.\<close>

fun ended :: "bool \<Rightarrow> outcome \<Rightarrow> bool" where
  "ended sr (Finish x) \<longleftrightarrow> isl x"
| "ended sr (Continue t s x) \<longleftrightarrow> s = sr"

definition stopped :: "bool \<Rightarrow> outcome + 'a \<Rightarrow> bool" where
  "stopped sr r \<longleftrightarrow> (\<forall>oc. r = Inl oc \<longrightarrow> ended sr oc)"

lemma stopped_phases:
  "returns (stopped sr) (connectPhase e req start a sr t)"
  "returns (stopped s) (slotPhase e req start a sr t)"
  "returns (stopped s) (checkContext e req start a t)"
  unfolding connectPhase_def slotPhase_def checkContext_def Let_def
  by (intro returns_option returns_if returns_fail returns_ret returns_bind; simp add: stopped_def)+

lemma slotPhase_due:
  assumes "steady clk" and "timed clk e" and "slot_near clk w" and "sr \<Longrightarrow> slot_due clk w"
  shows "wp (slotPhase e req start a sr t) (\<lambda>r w'. \<not> isl r \<longrightarrow> slot_due clk w') w"
proof (cases sr)
  case False
  let ?w = "w\<lparr>wtick := Suc (wtick w)\<rparr>"
  have near: "slot_near clk ?w" using slot_near_kept [OF assms(1) unsent_paced assms(3)] qt.R_tick by blast
  have rest: "wp (do { d \<leftarrow> since e q; let t = t\<lparr>tqueue := tqueue t + d\<rparr>;
      case err of None \<Rightarrow> ret (Inr t)
      | Some x \<Rightarrow> do { d \<leftarrow> since e start; r \<leftarrow> fail req x (a - 1) (t\<lparr>ttotal := d\<rparr>); ret (Inl (Finish r)) } })
      (\<lambda>r w'. \<not> isl r \<longrightarrow> slot_due clk w') w'"
    if "err = None \<Longrightarrow> slot_due clk w'" for err w' q
  proof (cases err)
    case None
    show ?thesis unfolding wp_bind
      by (rule wp_keeps [OF qt.keeps_reading(2)])
        (use that None slot_due_kept [OF assms(1)] in \<open>auto simp: Let_def wp_simps\<close>)
  next
    case (Some x)
    then show ?thesis by (simp add: wp_def Let_def split: prod.split)
  qed
  show ?thesis unfolding slotPhase_def wp_bind using False
    by (simp add: wp_observe wp_bind)
      (rule wp_mono [OF waitForRequestSlot_due [OF assms(1,2) near]], use rest in \<open>simp add: wp_bind\<close>)
qed (use assms(4) in \<open>simp add: slotPhase_def wp_simps\<close>)

text \<open>Calls are dated before the present tick.\<close>

definition sent_before :: "nat \<Rightarrow> world \<Rightarrow> bool" where
  "sent_before k w \<longleftrightarrow> (\<forall>i t c. Sent i t c \<in> set (wtrace w) \<longrightarrow> t < k)"

lemma sent_before_paced:
  assumes "paced clk w w'" and "sent_before (wtick w) w"
  shows "sent_before (wtick w') w'"
  using assms by (fastforce simp: paced_def sent_before_def)

lemma sent_before_unsent: "unsent w w' \<Longrightarrow> sent_before k w \<Longrightarrow> sent_before k w'"
  by (fastforce simp: unsent_def sent_before_def)

text \<open>
  After a successful request the slot is the request delay after the response was read, and every
  call was made before that.
\<close>

definition spaced :: "(nat \<Rightarrow> time) \<Rightarrow> world \<Rightarrow> bool" where
  "spaced clk w \<longleftrightarrow> (0 <s requestDelay (wclient w) \<longrightarrow>
     (\<exists>rt. nextRequestAt (wclient w) = clk rt + sint (requestDelay (wclient w)) \<and> rt < wtick w \<and> sent_before rt w))"

lemma spaced_unsent:
  assumes "unsent w w'" and "spaced clk w"
  shows "spaced clk w'"
proof -
  have "wtick w \<le> wtick w'" "nextRequestAt (wclient w') = nextRequestAt (wclient w)"
    "requestDelay (wclient w') = requestDelay (wclient w)"
    using assms(1) by (auto simp: unsent_def)
  with assms sent_before_unsent show ?thesis unfolding spaced_def by (metis order_less_le_trans)
qed

lemma unsent_success: "keeps unsent (recordSuccess a now)" "keeps unsent (log_line r)"
  by (auto simp: keeps_def recordSuccess_def wp_simps intro!: unsent_same_trace)

lemma wp_succeed_unsent:
  assumes "\<And>oc w'. unsent (w\<lparr>wclient := (if 0 <s requestDelay (wclient w)
      then (wclient w)\<lparr>nextRequestAt := time_add rc (requestDelay (wclient w))\<rparr> else wclient w)\<rparr>) w' \<Longrightarrow> Q oc w'"
  shows "wp (succeed e req start a t rc resp) Q w"
proof -
  have rest: "keeps unsent (do { ctxErr \<leftarrow> contextError e;
      case ctxErr of
        Some x \<Rightarrow> do { d \<leftarrow> since e start; r \<leftarrow> fail req x a (t\<lparr>ttotal := d\<rparr>); ret (Finish r) }
      | None \<Rightarrow> do { completedAt \<leftarrow> observe (clockAt e);
          let timing = completeTiming (t\<lparr>ttotal := time_sub completedAt start\<rparr>);
          recordSuccess a completedAt; log_line (logSuccess req (int a) timing);
          ret (Finish (Inr resp)) } })"
    unfolding Let_def by (intro qt.keeps_attempt_intros unsent_success)
  show ?thesis unfolding succeed_def wp_bind wp_look
    using assms wp_keeps [OF rest, unfolded wp_bind] by (auto simp: wp_simps)
qed

lemma sent_now_paced:
  assumes "steady clk" and "slot_due clk w" and "ev = NilSession \<or> (\<exists>i c. ev = Sent i (Suc (wtick w)) c)"
  shows "paced clk w (w\<lparr>wtick := Suc (Suc (Suc (wtick w))), wtrace := ev # wtrace w\<rparr>)"
proof -
  have "nextRequestAt (wclient w) \<le> clk (Suc (wtick w))"
    using assms(2) steady_step(1) [OF assms(1), of "wtick w"] by (simp add: slot_due_def)
  with assms(3) show ?thesis unfolding paced_def by (intro conjI exI [of _ "[ev]"]) auto
qed

text \<open>How an attempt ends for the pace.\<close>

definition pace_end :: "(nat \<Rightarrow> time) \<Rightarrow> world \<Rightarrow> outcome \<Rightarrow> world \<Rightarrow> bool" where
  "pace_end clk w oc w' \<longleftrightarrow> paced clk w w' \<and>
     (case oc of
        Finish r \<Rightarrow> \<not> isl r \<longrightarrow> spaced clk w'
      | Continue t s x \<Rightarrow> nextRequestAt (wclient w') = nextRequestAt (wclient w) \<and> (s \<longrightarrow> slot_due clk w'))"

lemma pace_end_trans:
  assumes "steady clk" and "unsent w v" and "pace_end clk v oc w'"
  shows "pace_end clk w oc w'"
  using assms paced_trans [OF assms(1) unsent_paced [OF assms(2)]]
  by (auto simp: pace_end_def unsent_def split: outcome.splits)

lemma pace_end_failed:
  assumes "steady clk" and "unsent w w'" and "slot_due clk w" and "\<not> (\<exists>b. oc = Finish (Inr b))"
  shows "pace_end clk w oc w'"
proof -
  have "\<not> isl r \<Longrightarrow> oc \<noteq> Finish r" for r using assms(4) by (cases r) auto
  then show ?thesis using assms unsent_paced slot_due_kept [OF assms(1-3)]
    by (auto simp: pace_end_def unsent_def split: outcome.splits)
qed

lemma slot_moved:
  assumes "steady clk" and "sent_before k w" and "k < wtick w" and "nextRequestAt (wclient w) \<le> clk k"
  defines "v \<equiv> w\<lparr>wclient := (if 0 <s requestDelay (wclient w)
    then (wclient w)\<lparr>nextRequestAt := time_add (clk k) (requestDelay (wclient w))\<rparr> else wclient w)\<rparr>"
  shows "paced clk w v \<and> spaced clk v"
proof (cases "0 <s requestDelay (wclient w)")
  case True
  have "clk k \<le> clk (wtick w)" using steady_mono assms(1,3) by (simp add: less_imp_le)
  moreover have "0 < sint (requestDelay (wclient w))" "sint (requestDelay (wclient w)) < 2 ^ 63"
    using True sint_range by (simp_all add: word_sless_alt)
  ultimately have "paced clk w v" using True assms(4) by (simp add: v_def paced_def time_add_def)
  moreover have "spaced clk v" unfolding spaced_def
    using True assms(2,3) by (intro impI exI [of _ k]) (simp add: v_def time_add_def sent_before_def)
  ultimately show ?thesis by blast
qed (simp add: v_def paced_def spaced_def)

lemma giveUp_fails: "returns (\<lambda>oc. \<not> (\<exists>b. oc = Finish (Inr b))) (giveUpOrRetry e req start a t x)"
  unfolding giveUpOrRetry_def Let_def
  by (intro returns_if returns_fail returns_ret returns_bind; auto)

lemma succeed_finishes: "returns (\<lambda>oc. \<exists>r. oc = Finish r) (succeed e req start a t rc resp)"
  unfolding succeed_def Let_def
  by (intro returns_option returns_ret returns_bind; auto)

text \<open>From the response to the end of the attempt.\<close>

lemma wp_response_read:
  assumes "steady clk" and "sent_before k w" and "k < wtick w" and "nextRequestAt (wclient w) \<le> clk k"
    and stop: "\<And>oc w'. pace_end clk w oc w' \<Longrightarrow> Q oc w'"
  shows "wp (case err of None \<Rightarrow> succeed e req start a t (clk k) resp | Some x \<Rightarrow> giveUpOrRetry e req start a t x) Q w"
proof (cases err)
  case None
  let ?v = "w\<lparr>wclient := (if 0 <s requestDelay (wclient w)
    then (wclient w)\<lparr>nextRequestAt := time_add (clk k) (requestDelay (wclient w))\<rparr> else wclient w)\<rparr>"
  note v = slot_moved [OF assms(1-4)]
  have fin: "pace_end clk w (Finish r) w'" if "unsent ?v w'" for r w'
    using paced_trans [OF assms(1) _ unsent_paced [OF that]] spaced_unsent [OF that] v by (simp add: pace_end_def)
  have "wp (succeed e req start a t (clk k) resp) (\<lambda>oc. unsent ?v) w" by (rule wp_succeed_unsent)
  then have "wp (succeed e req start a t (clk k) resp) Q w"
    by (rule wp_conj [OF _ wp_returns [OF succeed_finishes]]) (use stop fin in blast)
  with None show ?thesis by simp
next
  case (Some x)
  have due: "slot_due clk w" using assms(1,3,4) slot_due_step by (simp add: less_imp_le)
  have "wp (giveUpOrRetry e req start a t x) Q w"
    by (rule wp_also_keeps [OF qt.keeps_giveUpOrRetry wp_returns [OF giveUp_fails]])
      (use stop pace_end_failed [OF assms(1) _ due] in auto)
  with Some show ?thesis by simp
qed

lemma wp_executeRequest_at:
  assumes "\<And>ev r. ev = NilSession \<or> (\<exists>i c. ev = Sent i (wtick w) c) \<Longrightarrow>
    Q r (w\<lparr>wtick := Suc (wtick w), wtrace := ev # wtrace w\<rparr>)"
  shows "wp (executeRequest e req) Q w"
proof -
  have swap: "w\<lparr>wtrace := tr, wtick := n\<rparr> = w\<lparr>wtick := n, wtrace := tr\<rparr>" for tr n by simp
  show ?thesis using assms by (auto simp: executeRequest_def wp_simps swap split: option.split)
qed

lemma wp_sendPhase_paced:
  assumes "steady clk" and "clockAt e = clk" and "slot_due clk w" and "sent_before (wtick w) w"
    and stop: "\<And>oc w'. pace_end clk w oc w' \<Longrightarrow> Q oc w'"
  shows "wp (sendPhase e req start a t) Q w"
proof -
  let ?k = "Suc (Suc (wtick w))"
  let ?v = "\<lambda>ev. w\<lparr>wtick := Suc ?k, wtrace := ev # wtrace w\<rparr>"
  have rest: "wp (do { d \<leftarrow> since e as; finishRequest e ''finishing upstream request failed'';
      err \<leftarrow> attributeError e req x;
      case err of None \<Rightarrow> succeed e req start a (t\<lparr>tattempt := tattempt t + d\<rparr>) rc resp
      | Some x \<Rightarrow> giveUpOrRetry e req start a (t\<lparr>tattempt := tattempt t + d\<rparr>) x }) Q v"
    if eqs: "rc = clk ?k" "v = ?v ev" and ev: "ev = NilSession \<or> (\<exists>i c. ev = Sent i (Suc (wtick w)) c)" for ev as x resp rc v
    unfolding wp_bind eqs
  proof (rule wp_keeps [OF qt.keeps_reading(2)], rule wp_keeps [OF qt.keeps_finishRequest],
      simp add: request_messages_def, rule wp_keeps [OF qt.keeps_reading(4)], goal_cases)
    case (1 d w1 u w2 err w3)
    have q: "unsent (?v ev) w3" using 1 qt.R_trans by blast
    have v: "paced clk w (?v ev)" "nextRequestAt (wclient w) \<le> clk (wtick w)"
      using sent_now_paced assms(1,3) ev by (simp_all add: slot_due_def)
    have "sent_before ?k (?v ev)" using assms(4) ev by (auto simp: sent_before_def less_Suc_eq)
    then have b: "sent_before ?k w3" using q sent_before_unsent by blast
    have k: "?k < wtick w3" and "nextRequestAt (wclient w3) = nextRequestAt (wclient w)" using q by (auto simp: unsent_def)
    with v have n: "nextRequestAt (wclient w3) \<le> clk ?k"
      using steady_mono [OF assms(1), of "wtick w" ?k] by simp
    show ?case
    proof (rule wp_response_read [OF assms(1) b k n], rule stop)
      fix oc w' assume "pace_end clk w3 oc w'"
      from pace_end_trans [OF assms(1) q this] show "pace_end clk w oc w'"
        using paced_trans [OF assms(1) v(1)] by (simp add: pace_end_def split: outcome.splits)
    qed
  qed
  show ?thesis unfolding sendPhase_def wp_bind Let_def wp_observe
    by (rule wp_executeRequest_at, rule rest [unfolded wp_bind]) (auto simp: assms(2))
qed

lemma stopped_beginPhase: "returns (stopped s) (beginPhase e req start a t)"
proof -
  have check: "returns (stopped s) (State_Monad.bind (checkContext e req start a t)
      (\<lambda>c. case c of Inl x \<Rightarrow> ret (Inl x) | Inr _ \<Rightarrow> m))" if "returns (stopped s) m" for m :: "(outcome + unit) act"
    unfolding returns_def wp_bind
  proof
    fix w :: world
    show "wp (checkContext e req start a t)
        (\<lambda>c. wp (case c of Inl x \<Rightarrow> ret (Inl x) | Inr _ \<Rightarrow> m) (\<lambda>a _. stopped s a)) w"
      by (rule wp_mono [OF wp_returns [OF stopped_phases(3)]])
        (use that in \<open>auto simp: returns_def wp_simps stopped_def split: sum.splits\<close>)
  qed
  show ?thesis unfolding beginPhase_def
    by (intro check returns_option returns_fail returns_ret returns_bind; simp add: stopped_def)
qed

lemma pace_end_stopped:
  assumes "steady clk" and "unsent w w'" and "ended sr oc" and "sr \<Longrightarrow> slot_due clk w"
  shows "pace_end clk w oc w'"
  using assms unsent_paced slot_due_kept [OF assms(1,2)]
  by (cases oc) (auto simp: pace_end_def unsent_def)

lemma wp_slotPhase_paced:
  assumes "steady clk" and "timed clk e" and "slot_near clk w" and "sr \<Longrightarrow> slot_due clk w"
  shows "wp (slotPhase e req start a sr t) (\<lambda>r w'. unsent w w' \<and> stopped sr r \<and> (\<not> isl r \<longrightarrow> slot_due clk w')) w"
  by (rule wp_also_keeps [OF qt.keeps_phases(1)
        wp_conj [OF wp_returns [OF stopped_phases(2)] slotPhase_due [OF assms]]]) auto

lemma wp_beginPhase_paced: "wp (beginPhase e req start a t) (\<lambda>r w'. unsent w w' \<and> stopped sr r) w"
  by (rule wp_also_keeps [OF qt.keeps_beginPhase wp_returns [OF stopped_beginPhase]]) simp

lemma wp_executeAttempt_paced:
  assumes "steady clk" and "timed clk e" and "slot_near clk w" and "sent_before (wtick w) w"
    and "sr \<Longrightarrow> slot_due clk w" and stop: "\<And>oc w'. pace_end clk w oc w' \<Longrightarrow> Q oc w'"
  shows "wp (executeAttempt e req start a sr t) Q w"
proof -
  have early: "wp (ret oc) Q w'" if "unsent w w'" "ended sr oc" for oc w'
    using stop pace_end_stopped [OF assms(1) that assms(5)] by (simp add: wp_simps)
  have send: "wp (sendPhase e req start a t) Q w'" if "unsent w w'" "slot_due clk w'" for t w'
    using wp_sendPhase_paced [OF assms(1) _ that(2) sent_before_paced [OF unsent_paced [OF that(1)] assms(4)]]
      stop pace_end_trans [OF assms(1) that(1)] assms(2) by (simp add: timed_def)
  have bound: "wp (State_Monad.bind (beginPhase e req start a t) (\<lambda>r. case r of Inl x \<Rightarrow> ret x
      | Inr _ \<Rightarrow> sendPhase e req start a t)) Q w'" if "unsent w w'" "slot_due clk w'" for t w'
    unfolding wp_bind
    by (rule wp_mono [OF wp_beginPhase_paced [where sr = sr]])
      (use early send qt.R_trans [OF that(1)] slot_due_kept [OF assms(1) _ that(2)] in \<open>auto simp: stopped_def split: sum.split\<close>)
  have slot: "wp (State_Monad.bind (slotPhase e req start a sr t) (\<lambda>r. case r of Inl x \<Rightarrow> ret x
      | Inr t \<Rightarrow> State_Monad.bind (beginPhase e req start a t) (\<lambda>r. case r of Inl x \<Rightarrow> ret x
      | Inr _ \<Rightarrow> sendPhase e req start a t))) Q w'" if "unsent w w'" for t w'
    unfolding wp_bind [of "slotPhase e req start a sr t"]
    by (rule wp_mono [OF wp_slotPhase_paced [OF assms(1,2) slot_near_kept [OF assms(1) unsent_paced [OF that] assms(3)]
          slot_due_kept [OF assms(1) that assms(5)]]])
      (use early bound qt.R_trans [OF that] in \<open>auto simp: stopped_def split: sum.split\<close>)
  show ?thesis unfolding executeAttempt_def wp_bind [of "connectPhase e req start a sr t"]
    by (rule wp_also_keeps [OF qt.keeps_connectPhase wp_returns [OF stopped_phases(1)]])
      (use early slot in \<open>auto simp: stopped_def split: sum.split\<close>)
qed

definition pace_result :: "(nat \<Rightarrow> time) \<Rightarrow> world \<Rightarrow> (goerror + bytes) option \<Rightarrow> world \<Rightarrow> bool" where
  "pace_result clk w r w' \<longleftrightarrow> paced clk w w' \<and> (\<forall>b. r = Some (Inr b) \<longrightarrow> spaced clk w')"

lemma pace_result_trans:
  "steady clk \<Longrightarrow> paced clk w v \<Longrightarrow> pace_result clk v r w' \<Longrightarrow> pace_result clk w r w'"
  unfolding pace_result_def using paced_trans by blast

lemma executeLoop_exhausted:
  "wp (executeLoop e req start [] sr t x) (\<lambda>r w'. unsent w w' \<and> (\<forall>b. r \<noteq> Some (Inr b))) w"
proof -
  have "keeps unsent (executeLoop e req start [] sr t x)"
    unfolding executeLoop.simps by (intro qt.keeps_attempt_intros qt.R_final)
  moreover have "wp (executeLoop e req start [] sr t x) (\<lambda>r w'. \<forall>b. r \<noteq> Some (Inr b)) w"
    by (auto simp: wp_def split: option.split prod.split)
  ultimately show ?thesis by (rule wp_also_keeps) simp
qed

lemma wp_executeLoop_paced:
  assumes "steady clk" and "timed clk e"
  shows "slot_near clk w \<Longrightarrow> sent_before (wtick w) w \<Longrightarrow> (sr \<Longrightarrow> slot_due clk w) \<Longrightarrow>
    wp (executeLoop e req start as sr t x) (pace_result clk w) w"
proof (induction as arbitrary: w sr t x)
  case Nil
  show ?case
    by (rule wp_mono [OF executeLoop_exhausted]) (auto simp: pace_result_def unsent_paced)
next
  case (Cons a as)
  show ?case unfolding executeLoop.simps(2) wp_bind
  proof (rule wp_executeAttempt_paced [OF assms Cons.prems], goal_cases)
    case (2 oc w1)
    have p: "paced clk w w1" using 2 by (simp add: pace_end_def)
    have again: "wp (executeLoop e req start as s t1 y) (pace_result clk w) w1" if "s \<longrightarrow> slot_due clk w1" for s t1 y
      by (rule wp_mono [OF Cons.IH [OF slot_near_kept [OF assms(1) p Cons.prems(1)]
              sent_before_paced [OF p Cons.prems(2)]]]) (use that pace_result_trans [OF assms(1) p] in auto)
    show ?case using 2 p again
      by (cases oc) (auto simp: pace_end_def pace_result_def wp_simps)
  qed
qed

lemma pace_result_unsent:
  "steady clk \<Longrightarrow> pace_result clk w r v \<Longrightarrow> unsent v w' \<Longrightarrow> pace_result clk w r w'"
  using paced_trans [OF _ _ unsent_paced] spaced_unsent by (auto simp: pace_result_def)

lemma wp_owned_loop_paced:
  assumes "steady clk" and "timed clk e" and "slot_near clk w" and "sent_before (wtick w) w" and "unsent w v"
  shows "wp (do { r \<leftarrow> executeLoop e req start as False t x; release; ret r }) (pace_result clk w) v"
  unfolding wp_bind
proof (rule wp_mono [OF wp_executeLoop_paced [OF assms(1,2)]])
  show "slot_near clk v" "sent_before (wtick v) v"
    using assms(1-4) unsent_paced [OF assms(5)] slot_near_kept sent_before_paced by blast+
  fix r w' assume "pace_result clk v r w'"
  then have "pace_result clk w r w'" using pace_result_trans [OF assms(1) unsent_paced [OF assms(5)]] by blast
  from pace_result_unsent [OF assms(1) this] show "wp release (\<lambda>_. wp (ret r) (pace_result clk w)) w'"
    unfolding wp_ret by (rule wp_keeps [OF qt.keeps_owner(2)])
qed simp

lemma wp_Execute_paced:
  assumes "steady clk" and "timed clk e" and "slot_near clk w" and "sent_before (wtick w) w"
  shows "wp (Execute e reqp) (pace_result clk w) w"
proof -
  have failed: "pace_result clk w (Some (Inl x)) w'" if "unsent w w'" for x w'
    using unsent_paced that by (auto simp: pace_result_def)
  have tick: "unsent w v \<Longrightarrow> unsent w (v\<lparr>wtick := Suc (wtick v)\<rparr>)" for v using qt.R_trans qt.R_tick by blast
  note loop = wp_owned_loop_paced [OF assms]
  have owned: "wp (do { err \<leftarrow> acquire e; d \<leftarrow> since e q;
      case err of
        Some x \<Rightarrow> do { d' \<leftarrow> since e start; ret (Some (Inl (requestError x 0 (zeroTiming\<lparr>tqueue := d, ttotal := d'\<rparr>)))) }
      | None \<Rightarrow> do { r \<leftarrow> executeLoop e req start as False (zeroTiming\<lparr>tqueue := d\<rparr>) None; release; ret r } })
      (pace_result clk w) v" if "unsent w v" for q start req as v
    unfolding wp_bind
  proof (rule wp_keeps [OF qt.keeps_owner(1)], rule wp_keeps [OF qt.keeps_reading(2)], goal_cases)
    case (1 err w1 d w2)
    then have q: "unsent w w2" using that qt.R_trans by blast
    show ?case
    proof (cases err)
      case (Some x)
      show ?thesis unfolding Some option.case wp_bind wp_ret
        by (rule wp_keeps [OF qt.keeps_reading(2)]) (use failed qt.R_trans [OF q] in blast)
    qed (use loop [OF q] in simp)
  qed
  show ?thesis
  proof (cases "ValidateRequest reqp")
    case None
    then show ?thesis using owned [OF tick [OF tick [OF qt.R_refl]], unfolded wp_bind]
      by (cases reqp) (simp_all add: Execute_def ValidateRequest_def wp_bind wp_observe Let_def)
  next
    case (Some x)
    show ?thesis unfolding Execute_def Some wp_bind wp_observe
      by (simp add: wp_bind wp_ret, rule wp_keeps [OF qt.keeps_reading(2)])
        (use failed qt.R_trans [OF qt.R_tick] in blast)
  qed
qed

lemma run_paced:
  assumes "steady clk" and "slot_near clk w0" and "sent_before (wtick w0) w0"
  shows "client_run (timed clk) w0 w \<Longrightarrow> paced clk w0 w"
proof (induction rule: client_run.induct)
  case run_start
  show ?case using qt.R_refl unsent_paced by blast
next
  case (run_connect w e r w')
  then show ?case using keeps_run [OF qt.keeps_Connect] unsent_paced paced_trans [OF assms(1)] by blast
next
  case (run_close w e r w')
  then show ?case using keeps_run [OF qt.keeps_CloseClient] unsent_paced paced_trans [OF assms(1)] by blast
next
  case (run_execute w e reqp r w')
  have "wp (Execute e reqp) (pace_result clk w) w"
    using wp_Execute_paced [OF assms(1) run_execute.hyps(2)] run_execute.IH assms
      slot_near_kept sent_before_paced by blast
  then show ?case using run_execute paced_trans [OF assms(1)] by (simp add: wp_def pace_result_def)
qed

subsection \<open>Properties\<close>

text \<open>
  C11: The request delay is kept. After a request that succeeded, however the client goes on (further
  requests, failures, retries, reconnects), no call is sent to the device before the request delay has
  passed since the response was read, which was after every call made so far. This holds for one
  clock that does not run backwards and timers that do not fire early.
\<close>

theorem requests_paced:
  assumes "steady clk" and "client_run (timed clk) (started addr attempt_timeout rd cd k) w" and "0 <s rd"
    and "timed clk e" and "run_state (Execute e reqp) w = (Some (Inr b), w1)" and "client_run (timed clk) w1 w2"
  shows "\<exists>rt d. wtrace w2 = d @ wtrace w1 \<and> rt < wtick w1 \<and>
    (\<forall>i t c. Sent i t c \<in> set (wtrace w1) \<longrightarrow> t < rt) \<and>
    (\<forall>i t c. Sent i t c \<in> set d \<longrightarrow> clk rt + sint rd \<le> clk t)"
proof -
  let ?w0 = "started addr attempt_timeout rd cd k"
  have start: "slot_near clk ?w0" "sent_before (wtick ?w0) ?w0"
    using steady_step(3) [OF assms(1)] by (simp_all add: slot_near_def sent_before_def started_def NewClient_def)
  have w: "paced clk ?w0 w" using run_paced [OF assms(1) start assms(2)] .
  have near: "slot_near clk w" "sent_before (wtick w) w"
    using slot_near_kept [OF assms(1) w start(1)] sent_before_paced [OF w start(2)] .
  have w1: "paced clk w w1" "spaced clk w1"
    using wp_Execute_paced [OF assms(1,4) near, of reqp] assms(5) by (simp_all add: wp_def pace_result_def)
  have rd: "requestDelay (wclient w1) = rd" using w w1(1) by (simp add: paced_def started_def NewClient_def)
  have w2: "paced clk w1 w2"
    using run_paced [OF assms(1) slot_near_kept [OF assms(1) w1(1) near(1)] sent_before_paced [OF w1(1) near(2)] assms(6)] .
  obtain rt where rt: "nextRequestAt (wclient w1) = clk rt + sint rd" "rt < wtick w1" "sent_before rt w1"
    using w1(2) assms(3) by (auto simp: spaced_def rd)
  obtain d where "wtrace w2 = d @ wtrace w1"
    "\<forall>i t c. Sent i t c \<in> set d \<longrightarrow> nextRequestAt (wclient w1) \<le> clk t"
    using w2 unfolding paced_def by blast
  with rt show ?thesis unfolding sent_before_def by (intro exI [of _ rt] exI [of _ d]) simp
qed

lemma live_env_timed: "timed (clockAt live_env) live_env"
proof -
  have "1 + 2 ^ 63 * int t + sint d \<le> 1 + 2 ^ 63 * int (Suc (Suc t))" for t and d :: duration
    using sint_range(2) [of d] by simp
  then show ?thesis by (simp add: timed_def live_env_ok(3))
qed

theorem requests_paced_witness:
  "\<exists>w1 w2 rt d. snd (run_state (Execute live_env (Some demo_request)) (started ''dev:502'' second 5 0 0)) = w1 \<and>
     snd (run_state (Execute live_env (Some demo_request)) w1) = w2 \<and> wtrace w2 = d @ wtrace w1 \<and> rt < wtick w1 \<and>
     {clockAt live_env t | i t c. Sent i t c \<in> set d} \<subseteq> {clockAt live_env rt + 5..}"
proof -
  let ?w0 = "started ''dev:502'' second 5 0 0"
  obtain w1 where w1: "run_state (Execute live_env (Some demo_request)) ?w0 =
      (Some (Inr (buildResponse demo_request [0, 7])), w1)" by (rule live_run)
  obtain w2 where w2: "run_state (Execute live_env (Some demo_request)) w1 =
      (Some (Inr (buildResponse demo_request [0, 7])), w2)" by (rule live_run)
  have run: "client_run (timed (clockAt live_env)) w1 w2"
    using client_run.run_start live_env_timed w2 by (rule client_run.run_execute)
  have "0 <s (5 :: duration)" by (simp add: word_sless_alt)
  from requests_paced [OF live_env_steady client_run.run_start this live_env_timed w1 run]
  obtain rt d where "wtrace w2 = d @ wtrace w1" "rt < wtick w1"
    "\<forall>i t c. Sent i t c \<in> set d \<longrightarrow> clockAt live_env rt + sint (5 :: duration) \<le> clockAt live_env t" by blast
  with w1 w2 show ?thesis by (intro exI [of _ w1] exI [of _ w2] exI [of _ rt] exI [of _ d]) auto
qed

end
