(* ===== verification/Client_Logs.thy ===== *)
theory Client_Logs
  imports Client_Runs
begin

text \<open>
  The log records of one upstream request (\<^verbatim>\<open>internal/modbus/client.go\<close>): every request
  that got the owner token leaves exactly one final record, and it is the record of the result that
  is returned.
\<close>

subsection \<open>Records of one request\<close>

definition final_messages :: "string set" where
  "final_messages = {''upstream request completed'', ''upstream request failed''}"

text \<open>The log grew, but by no final record.\<close>

definition unlogged :: "world \<Rightarrow> world \<Rightarrow> bool" where
  "unlogged w w' \<longleftrightarrow> (\<exists>d. wlog w' = d @ wlog w \<and> recMessage ` set d \<inter> final_messages = {})"

lemma unlogged_record: "recMessage r \<notin> final_messages \<Longrightarrow> wlog w' = r # wlog w \<Longrightarrow> unlogged w w'"
  unfolding unlogged_def by (intro exI [of _ "[r]"]) simp

lemma unlogged_same: "wlog w' = wlog w \<Longrightarrow> unlogged w w'"
  by (simp add: unlogged_def)

lemma unlogged_trans: "unlogged u v \<Longrightarrow> unlogged v w \<Longrightarrow> unlogged u w"
proof -
  assume "unlogged u v" "unlogged v w"
  then obtain d d' where "wlog v = d @ wlog u" "wlog w = d' @ wlog v"
    "recMessage ` set d \<inter> final_messages = {}" "recMessage ` set d' \<inter> final_messages = {}"
    by (auto simp: unlogged_def)
  then show ?thesis unfolding unlogged_def by (intro exI [of _ "d' @ d"]) (auto simp: image_Un)
qed

interpretation ul: session_guarantee unlogged
proof (unfold_locales, goal_cases)
  case 2 then show ?case by (rule unlogged_trans)
next
  case (5 r w)
  then show ?case by (intro unlogged_record [where r = r]) (simp_all add: request_messages_def final_messages_def)
qed (simp_all add: unlogged_same)

lemma unlogged_actions:
  "keeps unlogged (recordFirstFailure e)" "keeps unlogged recordRetry" "keeps unlogged (executeRequest e req)"
  "keeps unlogged (change f)"
  by (auto simp: recordFirstFailure_def recordRetry_def executeRequest_def keeps_def wp_simps
      intro!: unlogged_same split: option.split)

lemma unlogged_retry: "keeps unlogged (log_line (logFailure req n t x True))"
  by (auto simp: keeps_def wp_simps logFailure_def Let_def final_messages_def split_beta intro!: unlogged_record)

text \<open>The final record of a result, as the newest record of the log.\<close>

definition result_logged :: "request \<Rightarrow> world \<Rightarrow> goerror + bytes \<Rightarrow> world \<Rightarrow> bool" where
  "result_logged req w r w' \<longleftrightarrow> (\<exists>v rec. unlogged w v \<and> wlog w' = rec # wlog v \<and>
     (case r of
        Inr b \<Rightarrow> \<exists>n t. rec = logSuccess req n t
      | Inl err \<Rightarrow> \<exists>x n t. rec = logFailure req n t x False \<and> err = requestError x n (completeTiming t)))"

definition outcome_logged :: "request \<Rightarrow> world \<Rightarrow> outcome \<Rightarrow> world \<Rightarrow> bool" where
  "outcome_logged req w oc w' = (case oc of Finish r \<Rightarrow> result_logged req w r w' | Continue t s x \<Rightarrow> unlogged w w')"

definition phase_logged :: "request \<Rightarrow> world \<Rightarrow> outcome + 'a \<Rightarrow> world \<Rightarrow> bool" where
  "phase_logged req w r w' = (case r of Inl oc \<Rightarrow> outcome_logged req w oc w' | Inr _ \<Rightarrow> unlogged w w')"

subsection \<open>Rules\<close>

lemma triple_unlogged:
  assumes "keeps unlogged m" and "\<And>a. triple (unlogged w0) (f a) T"
  shows "triple (unlogged w0) (State_Monad.bind m f) T"
proof (rule triple_seq [OF _ assms(2)])
  show "triple (unlogged w0) m (\<lambda>a. unlogged w0)"
    unfolding triple_def by (intro allI impI, rule wp_keeps [OF assms(1)], rule unlogged_trans)
qed

lemma triple_fail:
  assumes "\<And>r w'. result_logged req w0 r w' \<Longrightarrow> T (g r) w'"
  shows "triple (unlogged w0) (State_Monad.bind (fail req x m t) (\<lambda>r. ret (g r))) T"
proof (rule triple_seq)
  show "triple (unlogged w0) (fail req x m t) (result_logged req w0)"
    by (auto simp: triple_def fail_def finalError_def Let_def wp_simps result_logged_def)
qed (simp add: triple_ret assms)

lemmas triple_intros = triple_if triple_option triple_fail triple_ret triple_unlogged

subsection \<open>The phases of an attempt\<close>

lemmas unlogged_intros = ul.keeps_session_intros ul.keeps_connectLocked ul.keeps_disconnectLocked
  ul.keeps_waitForRequestSlot unlogged_actions unlogged_retry

lemmas logged_defs = phase_logged_def outcome_logged_def

lemma logged_phases:
  "triple (unlogged w0) (slotPhase e req start a sr t) (phase_logged req w0)"
  "triple (unlogged w0) (checkContext e req start a t) (phase_logged req w0)"
  unfolding slotPhase_def checkContext_def Let_def
  by (intro triple_intros unlogged_intros; simp add: logged_defs)+

lemma logged_connectPhase: "triple (unlogged w0) (connectPhase e req start a sr t) (phase_logged req w0)"
  unfolding connectPhase_def Let_def
  by (intro triple_intros unlogged_intros; simp add: logged_defs)

lemma logged_giveUp: "triple (unlogged w0) (giveUpOrRetry e req start a t x) (outcome_logged req w0)"
  unfolding giveUpOrRetry_def Let_def
  by (intro triple_intros unlogged_intros; simp add: logged_defs)

lemma triple_phase:
  assumes "triple (unlogged w0) m (phase_logged req w0)" and "\<And>x. triple (outcome_logged req w0 x) (g x) T"
    and "\<And>u. triple (unlogged w0) (f u) T"
  shows "triple (unlogged w0) (State_Monad.bind m (\<lambda>c. case c of Inl x \<Rightarrow> g x | Inr u \<Rightarrow> f u)) T"
  by (rule triple_seq [OF assms(1)]) (use assms(2,3) in \<open>auto simp: triple_def phase_logged_def split: sum.splits\<close>)

lemma logged_beginPhase: "triple (unlogged w0) (beginPhase e req start a t) (phase_logged req w0)"
  unfolding beginPhase_def
  by (intro triple_phase [OF logged_phases(2)] triple_intros unlogged_intros ul.keeps_finishRequest;
      simp add: logged_defs request_messages_def)

lemma triple_success:
  "triple (unlogged w0) (State_Monad.bind (log_line (logSuccess req n t)) (\<lambda>_. ret (Finish (Inr b)))) (outcome_logged req w0)"
  by (auto simp: triple_def wp_simps outcome_logged_def result_logged_def)

lemma logged_succeed: "triple (unlogged w0) (succeed e req start a t rc resp) (outcome_logged req w0)"
  unfolding succeed_def Let_def recordSuccess_def
  by (intro triple_success triple_intros unlogged_intros; simp add: logged_defs)

lemma logged_sendPhase: "triple (unlogged w0) (sendPhase e req start a t) (outcome_logged req w0)"
  unfolding sendPhase_def Let_def
  by (intro triple_option triple_unlogged logged_succeed logged_giveUp unlogged_intros ul.keeps_finishRequest)
    (simp add: request_messages_def)

lemma logged_executeAttempt: "triple (unlogged w0) (executeAttempt e req start a sr t) (outcome_logged req w0)"
  unfolding executeAttempt_def
  by (intro triple_phase [OF logged_connectPhase] triple_phase [OF logged_phases(1)]
      triple_phase [OF logged_beginPhase] logged_sendPhase triple_ret)

text \<open>Only the first attempt may ask for another one.\<close>

definition no_retry :: "outcome + 'a \<Rightarrow> bool" where
  "no_retry r \<longleftrightarrow> (\<forall>t s x. r \<noteq> Inl (Continue t s x))"

lemma returns_bind_ret: "returns P (State_Monad.bind (ret a) f) = returns P (f a)"
  by (simp add: returns_def wp_simps)

lemma no_retry_connectPhase:
  assumes "a \<noteq> 1"
  shows "returns no_retry (connectPhase e req start a sr t)"
proof -
  have "returns no_retry (State_Monad.bind (if a = 1 \<and> b then m else ret (Some x)) f)"
    if "returns no_retry (f (Some x))" for b m and x :: goerror and f :: "goerror option \<Rightarrow> (outcome + requestTiming) act"
    using that assms by (simp add: returns_bind_ret)
  note skip = this
  show ?thesis unfolding connectPhase_def Let_def
    by (rule returns_bind, rule returns_if, simp add: returns_ret no_retry_def, rule returns_bind, rule returns_bind,
        rule returns_bind, rule returns_option, simp add: returns_ret no_retry_def, rule skip, rule returns_bind)
      (auto simp: no_retry_def intro!: returns_bind returns_ret)
qed

lemma no_retry_phases:
  "returns no_retry (slotPhase e req start a sr t)" "returns no_retry (checkContext e req start a t)"
  unfolding slotPhase_def checkContext_def Let_def
  by (intro returns_option returns_if returns_ret returns_bind; simp add: no_retry_def)+

lemma no_retry_seq:
  assumes "returns no_retry m" and "\<And>u. returns T (f u)" and "\<And>oc. no_retry (Inl oc :: outcome + 'a) \<Longrightarrow> T (g oc)"
  shows "returns T (State_Monad.bind m (\<lambda>c. case c of Inl x \<Rightarrow> ret (g x) | Inr u \<Rightarrow> f (u :: 'a)))"
  by (rule returns_bind_some [OF assms(1)]) (use assms(2,3) in \<open>auto intro!: returns_ret split: sum.split\<close>)

lemma no_retry_beginPhase: "returns no_retry (beginPhase e req start a t)"
  unfolding beginPhase_def
  by (intro no_retry_seq [OF no_retry_phases(2)] returns_option returns_ret returns_bind; simp add: no_retry_def)

lemma second_giveUp_finishes:
  assumes "a \<noteq> 1"
  shows "returns (\<lambda>oc. \<exists>r. oc = Finish r) (giveUpOrRetry e req start a t x)"
  unfolding giveUpOrRetry_def Let_def using assms
  by (auto simp: returns_bind_ret intro!: returns_bind returns_ret)

lemma second_attempt_finishes:
  assumes "a \<noteq> 1"
  shows "returns (\<lambda>oc. \<exists>r. oc = Finish r) (executeAttempt e req start a sr t)"
proof -
  have fin: "\<forall>t s x. oc \<noteq> Continue t s x \<Longrightarrow> \<exists>r. oc = Finish r" for oc by (cases oc) auto
  have send: "returns (\<lambda>oc. \<exists>r. oc = Finish r) (sendPhase e req start a t)" for t
    unfolding sendPhase_def Let_def
    by (intro returns_bind returns_option second_giveUp_finishes [OF assms])
      (auto simp: succeed_def Let_def intro!: returns_bind returns_option returns_ret)
  show ?thesis unfolding executeAttempt_def
    by (intro no_retry_seq [OF no_retry_connectPhase [OF assms], where g = "\<lambda>x. x"]
        no_retry_seq [OF no_retry_phases(1), where g = "\<lambda>x. x"]
        no_retry_seq [OF no_retry_beginPhase, where g = "\<lambda>x. x"] send)
      (simp_all add: no_retry_def fin)
qed

subsection \<open>The whole request\<close>

lemma logged_executeLoop:
  "triple (unlogged w0) (executeLoop e req start [1, 2] sr t x) (\<lambda>r w'. \<exists>y. r = Some y \<and> result_logged req w0 y w')"
proof -
  let ?T = "\<lambda>r w'. \<exists>y. r = Some y \<and> result_logged req w0 y w'"
  have last: "triple (unlogged w0) (executeLoop e req start [2] sr t x) ?T" for sr t x
    unfolding triple_def executeLoop.simps(2) wp_bind
  proof (intro allI impI, rule wp_conj [OF logged_executeAttempt [unfolded triple_def, rule_format]
        wp_returns [OF second_attempt_finishes]])
    fix w oc w'
    assume "outcome_logged req w0 oc w'" "\<exists>r. oc = Finish r"
    then show "wp (case oc of Finish x \<Rightarrow> ret (Some x)
        | Continue t s x \<Rightarrow> executeLoop e req start [] s t (Some x)) ?T w'"
      by (auto simp: wp_simps outcome_logged_def)
  qed simp_all
  show ?thesis unfolding executeLoop.simps(2) [of e req start 1]
    by (rule triple_seq [OF logged_executeAttempt])
      (use last in \<open>auto simp: triple_def outcome_logged_def wp_simps simp del: executeLoop.simps split: outcome.splits\<close>)
qed

text \<open>A request that never got the owner token leaves no record in the client.\<close>

definition request_logged :: "request \<Rightarrow> world \<Rightarrow> (goerror + bytes) option \<Rightarrow> world \<Rightarrow> bool" where
  "request_logged req w r w' \<longleftrightarrow>
     (\<exists>y. r = Some y \<and> result_logged req w y w') \<or>
     (\<exists>x t. r = Some (Inl (requestError x 0 t)) \<and> wlog w' = wlog w \<and> wclient w' = wclient w)"

definition bookkept :: "world \<Rightarrow> world \<Rightarrow> bool" where
  "bookkept w w' \<longleftrightarrow> wlog w' = wlog w \<and> wclient w' = wclient w"

lemma bookkept_actions: "keeps bookkept (observe f)" "keeps bookkept (since e start)" "keeps bookkept (acquire e)"
  by (auto simp: keeps_def since_def acquire_def release_def wp_simps bookkept_def split: option.split wait_case.split)

lemma logged_Execute:
  assumes "ValidateRequest (Some req) = None"
  shows "wp (Execute e (Some req)) (request_logged req w) w"
proof -
  have loop: "wp (do { r \<leftarrow> executeLoop e req start [1, 2] False t None; release; ret r }) (request_logged req w) v"
    if "bookkept w v" for start t v
    unfolding wp_bind
    by (rule wp_mono [OF logged_executeLoop [unfolded triple_def, rule_format, of w]])
      (use that in \<open>auto simp: bookkept_def unlogged_same wp_simps release_def request_logged_def result_logged_def\<close>)
  have abandoned: "wp (do { d \<leftarrow> since e start; ret (Some (Inl (requestError x 0 (f d)))) }) (request_logged req w) v"
    if "bookkept w v" for start x f v
    unfolding wp_bind wp_ret
    by (rule wp_keeps [OF bookkept_actions(2)]) (use that in \<open>auto simp: request_logged_def bookkept_def\<close>)
  have owned: "wp (do { err \<leftarrow> acquire e; d \<leftarrow> since e q;
      case err of
        Some x \<Rightarrow> do { d' \<leftarrow> since e start; ret (Some (Inl (requestError x 0 (zeroTiming\<lparr>tqueue := d, ttotal := d'\<rparr>)))) }
      | None \<Rightarrow> do { r \<leftarrow> executeLoop e req start [1, 2] False (zeroTiming\<lparr>tqueue := d\<rparr>) None; release; ret r } })
      (request_logged req w) v" if "bookkept w v" for q start v
    unfolding wp_bind
  proof (rule wp_keeps [OF bookkept_actions(3)], rule wp_keeps [OF bookkept_actions(2)], goal_cases)
    case (1 err w1 d w2)
    then have "bookkept w w2" using that by (simp add: bookkept_def)
    then show ?case using abandoned loop by (cases err) (simp_all del: executeLoop.simps)
  qed
  have "bookkept w (w\<lparr>wtick := k\<rparr>)" for k by (simp add: bookkept_def)
  then show ?thesis using owned [unfolded wp_bind] assms
    by (simp add: Execute_def wp_bind wp_observe Let_def del: executeLoop.simps)
qed

subsection \<open>Properties\<close>



end
