(* ===== verification/End_To_End.thy ===== *)
theory End_To_End
  imports Proxy_Server Client_Runs
begin

text \<open>
  A read on its whole way: the bytes of the client's frame through the server's loop
  (\<^verbatim>\<open>internal/modbus/server.go\<close>), the proxy's handler (\<^verbatim>\<open>internal/proxy/proxy.go\<close>)
  and the upstream client (\<^verbatim>\<open>internal/modbus/client.go\<close>), back to the bytes of the answer.
\<close>

subsection \<open>Steps of the composition\<close>

text \<open>An iteration of the connection loop in which nothing of the connection fails.\<close>

definition open_iteration :: "duration \<Rightarrow> iteration \<Rightarrow> bool" where
  "open_iteration rt it \<longleftrightarrow> \<not> serverDone it \<and> requestErr rt it = None \<and> writeErr it = None"

lemma handleConn_answers:
  assumes "open_iteration rt it" and "wf_request req"
    and "handle i (requestContext rt (startedAt it)) req s = Some (Returns (Inr resp, s'))"
  shows "handleConn rt handle i (it # its) \<lparr>inbuf = encodeRequest req @ rest, inerr = err\<rparr> s d o1 =
    handleConn rt handle (Suc i) its \<lparr>inbuf = rest, inerr = err\<rparr> s' (d @ [(req, resp)]) (o1 @ round_acts it (req, resp))"
  using assms readRequest_encoded [OF assms(2)]
  by (simp add: open_iteration_def Let_def responsePDU_def round_acts_def response_frame_def)

lemma clientExec_live:
  assumes "valid_request req" and "live e" and "\<And>t. replyAt e t (callOf req) = Inr results"
  shows "clientExec e req p = (Inr (buildResponse req results),
    p\<lparr>upstream := snd (run_state (Execute e (Some req)) (upstream p))\<rparr>)"
proof -
  have "ValidateRequest (Some req) = None" using assms(1) by (simp add: ValidateRequest_iff)
  from live_Execute [OF assms(2,3) this]
  have "fst (run_state (Execute e (Some req)) (upstream p)) = Some (Inr (buildResponse req results))"
    by (simp add: returns_def wp_def)
  then show ?thesis by (cases "run_state (Execute e (Some req)) (upstream p)") (simp add: clientExec_def)
qed

text \<open>A hit on what was stored for a canonical response is answered with that response.\<close>

lemma hit_repeats_response:
  assumes "cache_wf (pcache p)" and "valid_request req" and "IsReadFunction (FunctionCode req)"
    and "canonical_response (FunctionCode req) (unat (Quantity req)) data"
    and "decomposeResponse (FunctionCode req) (Quantity req) data = Returns (Some vs)"
    and "GetRange (hitClock o1) (pcache p) (SlaveID req) (FunctionCode req) (Address req) (Quantity req) = Some vs"
  shows "HandleRequest exec o1 (Some req) p = Some (Returns (Inr data, p))"
proof -
  have q: "unat (Quantity req) \<le> 2000" using valid_read(2) [OF assms(2,3)] .
  have "assembleResponse (FunctionCode req) (Quantity req) vs = Returns (Some data)"
    using assemble_decompose [OF assms(3) q assms(4)] assms(5) by auto
  then show ?thesis unfolding HandleRequest_read [OF assms(2,3)] using assms(6) by (simp add: handleRead_def)
qed

text \<open>The proxy after a read that was fetched and stored.\<close>

definition after_fetch :: "time \<Rightarrow> request \<Rightarrow> bytes list \<Rightarrow> world \<Rightarrow> world proxy \<Rightarrow> world proxy" where
  "after_fetch t req vs w p = p\<lparr>upstream := w,
     pcache := SetRange t (pcache p) (SlaveID req) (FunctionCode req) (Address req) vs\<rparr>"

lemma proxyHandler_fetches:
  assumes "valid_request req" and "IsReadFunction (FunctionCode req)"
    and "live ((e i)\<lparr>deadlineOf := dl\<rparr>)" and "\<And>t. replyAt (e i) t (callOf req) = Inr results"
    and "GetRange (hitClock (obs i)) (pcache p) (SlaveID req) (FunctionCode req) (Address req) (Quantity req) = None"
    and "iterations (obs i) = it # its" "ctxTop it = None" "\<not> inFlight it" "ctxAfterFetch it = None"
    and "decomposeResponse (FunctionCode req) (Quantity req) (buildResponse req results) = Returns (Some vs)"
  shows "proxyHandler e obs i dl req p = Some (Returns (Inr (buildResponse req results),
    after_fetch (storeClock (obs i)) req vs (snd (run_state (Execute ((e i)\<lparr>deadlineOf := dl\<rparr>) (Some req)) (upstream p))) p))"
proof -
  let ?o = "(obs i)\<lparr>meanwhile := \<lambda>q. q, ctxDeadline := dl\<rparr>"
  have reply: "replyAt ((e i)\<lparr>deadlineOf := dl\<rparr>) t (callOf req) = Inr results" for t using assms(4) by simp
  have o: "hitClock ?o = hitClock (obs i)" "iterations ?o = it # its" "storeClock ?o = storeClock (obs i)"
    using assms(6) by simp_all
  show ?thesis unfolding proxyHandler_def HandleRequest_read [OF assms(1,2)]
    using handleRead_lead [where ?o1.0 = ?o and exec = "clientExec ((e i)\<lparr>deadlineOf := dl\<rparr>)" and p = p, OF assms(5) [folded o(1)] o(2) assms(7-9)
        clientExec_live [OF assms(1,3) reply] _ assms(10)]
    by (simp add: after_fetch_def)
qed

subsection \<open>Property\<close>


definition busy_seen :: "nat \<Rightarrow> world seen" where
  "busy_seen i = idle_seen\<lparr>hitClock := (\<lambda>_. 6), storeClock := 5, iterations := [demo_iter]\<rparr>"

lemma idle_cache_misses:
  "GetRange clock (pcache (fst (NewProxy cfg w))) 1 3 100 1 = None"
proof -
  have "unat (1 :: u16) = Suc 0" by simp
  then have "GetRange clock c 1 3 100 1 = GetRange_loop clock c 1 3 100 0 (Suc 0)" for c
    by (simp only: GetRange_def) simp
  then show ?thesis by (simp add: NewProxy_def NewCache_def)
qed

text \<open>A device that answers every call at once.\<close>

definition prompt_env :: env where
  "prompt_env = live_env\<lparr>clockAt := (\<lambda>_. 25)\<rparr>"


end
