(* ===== verification/Server_Shutdown.thy ===== *)
theory Server_Shutdown
  imports Server_Loop
begin

text \<open>
  Shutting the server down (\<^verbatim>\<open>Close\<close> and \<^verbatim>\<open>Wait\<close> of
  \<^verbatim>\<open>internal/modbus/server.go\<close>) comes to an end: after \<open>Close\<close> every step that changes
  anything brings the server closer to the state in which the accept loop has returned, every
  connection goroutine is gone and \<open>Wait\<close> has returned.
\<close>

subsection \<open>Steps after Close\<close>

text \<open>\<open>Close\<close> has returned: the flag is set and the listener is closed.\<close>

definition closed :: "server \<Rightarrow> bool" where
  "closed s \<longleftrightarrow> sreachable s \<and> shutdown s \<and> \<not> listening s"

inductive smoves :: "nat \<Rightarrow> server \<Rightarrow> server \<Rightarrow> bool" where
  none: "smoves 0 s s"
| more: "sstep s t \<Longrightarrow> t \<noteq> s \<Longrightarrow> smoves n t u \<Longrightarrow> smoves (Suc n) s u"

definition quiescent :: "server \<Rightarrow> bool" where
  "quiescent s \<longleftrightarrow> spc s = ServeReturned \<and> running s = {} \<and> leaving s = {} \<and> conns s = {} \<and> socketOpen s = {} \<and>
     wg s = 0 \<and> waitReturned s"

fun serve_left :: "serve_pc \<Rightarrow> nat" where
  "serve_left (Registered c) = 4"
| "serve_left (Accepted c) = 1"
| "serve_left Accepting = 1"
| "serve_left ServeReturned = 0"

definition work_left :: "server \<Rightarrow> nat" where
  "work_left s = serve_left (spc s) + 2 * card (running s) + card (leaving s) + (if waitReturned s then 0 else 1)"

lemma closed_step:
  assumes "closed s" and "sstep s t"
  shows "closed t"
proof -
  have "shutdown t \<and> \<not> listening t" using assms(2) assms(1) [unfolded closed_def]
    by (cases rule: sstep.cases) auto
  then show ?thesis using assms sreachable.step by (auto simp: closed_def)
qed

lemma closed_invs:
  assumes "closed s"
  shows "finite (running s)" "finite (leaving s)" "running s \<inter> socketOpen s = {}" "conns s = running s \<union> pending s"
    "pending s \<inter> running s = {}" "wg s = card (running s \<union> leaving s)" "running s \<inter> leaving s = {}"
    "socketOpen s \<subseteq> fresh_conn s"
  using server_invs [of s] assms unfolding closed_def server_inv_defs by auto

lemma work_decreases:
  assumes "closed s" and "sstep s t" and "t \<noteq> s"
  shows "work_left t < work_left s"
  using assms(2,3) closed_invs [OF assms(1)] assms(1)
proof (cases rule: sstep.cases)
  case (spawn c)
  then have "c \<notin> running s" using closed_invs(5) [OF assms(1)] by (auto simp: pending_def)
  with spawn closed_invs(1) [OF assms(1)] show ?thesis by (simp add: work_left_def)
next
  case (conn_delete c)
  have "c \<notin> leaving s" using conn_delete(2) closed_invs(7) [OF assms(1)] by auto
  moreover have "card (running s) = Suc (card (running s - {c}))"
    using conn_delete(2) closed_invs(1) [OF assms(1)] by (rule card.remove [rotated])
  ultimately show ?thesis using conn_delete closed_invs(2) [OF assms(1)] by (simp add: work_left_def)
next
  case (conn_done c)
  have "card (leaving s) = Suc (card (leaving s - {c}))"
    using conn_done(2) closed_invs(2) [OF assms(1)] by (rule card.remove [rotated])
  with conn_done show ?thesis by (simp add: work_left_def)
next
  case (conn_close c)
  then have "socketOpen s - {c} = socketOpen s" using closed_invs(3) [OF assms(1)] by auto
  with conn_close assms(3) show ?thesis by simp
next
  case wait
  then show ?thesis using assms(3) by (cases "waitReturned s") (auto simp: work_left_def)
qed (use assms in \<open>auto simp: work_left_def closed_def\<close>)

lemma smoves_bounded: "smoves n s t \<Longrightarrow> closed s \<Longrightarrow> closed t \<and> n + work_left t \<le> work_left s"
proof (induction rule: smoves.induct)
  case (more s t n u)
  then have "closed t" "work_left t < work_left s" using closed_step work_decreases by blast+
  with more.IH show ?case by auto
qed simp

text \<open>Something is left to do in every state that is not quiescent.\<close>

lemma closed_progress:
  assumes "closed s" and "\<not> quiescent s"
  shows "\<exists>t. sstep s t \<and> t \<noteq> s"
proof -
  note inv = closed_invs [OF assms(1)]
  have cl: "shutdown s" "\<not> listening s" using assms(1) by (auto simp: closed_def)
  have differ: "\<exists>t. sstep s t \<and> t \<noteq> s" if "sstep s t" "f t \<noteq> f s" for t and f :: "server \<Rightarrow> 'a" using that by metis
  show ?thesis
  proof (cases "spc s")
    case Accepting
    show ?thesis by (rule differ [OF sstep.accept_closed [OF Accepting cl(1)], where f = spc]) (simp add: Accepting)
  next
    case (Accepted c)
    show ?thesis by (rule differ [OF sstep.refuse [OF Accepted cl(1)], where f = spc]) (simp add: Accepted)
  next
    case (Registered c)
    show ?thesis by (rule differ [OF sstep.spawn [OF Registered], where f = spc]) (simp add: Registered)
  next
    case ServeReturned
    have sock: "socketOpen s = {}" using inv(8) ServeReturned by (simp add: fresh_conn_def)
    show ?thesis
    proof (cases "running s = {} \<and> leaving s = {}")
      case True
      then have "wg s = 0" using inv(6) by simp
      moreover have "\<not> waitReturned s" using assms(2) True sock ServeReturned inv(4,6)
        by (auto simp: quiescent_def pending_def)
      ultimately show ?thesis by (intro differ [OF sstep.wait [OF cl], where f = waitReturned]) simp_all
    next
      case False
      then consider c where "c \<in> running s" | c where "c \<in> leaving s" by auto
      then show ?thesis
      proof cases
        case 1
        show ?thesis by (rule differ [OF sstep.conn_delete [OF 1], where f = running]) (use 1 sock in auto)
      next
        case 2
        show ?thesis by (rule differ [OF sstep.conn_done [OF 2], where f = leaving]) (use 2 in auto)
      qed
    qed
  qed
qed

lemma smoves_trans: "smoves n s t \<Longrightarrow> smoves m t u \<Longrightarrow> smoves (n + m) s u"
  by (induction rule: smoves.induct) (auto intro: smoves.intros)

lemma reaches_quiescence: "closed s \<Longrightarrow> \<exists>n t. smoves n s t \<and> quiescent t"
proof (induction "work_left s" arbitrary: s rule: less_induct)
  case less
  show ?case
  proof (cases "quiescent s")
    case True
    then show ?thesis using smoves.none by blast
  next
    case False
    then obtain t where t: "sstep s t" "t \<noteq> s" using closed_progress less.prems by blast
    obtain n u where "smoves n t u" "quiescent u"
      using less.hyps [OF work_decreases [OF less.prems t] closed_step [OF less.prems t(1)]] by blast
    then show ?thesis using smoves.more [OF t] by blast
  qed
qed

subsection \<open>Property\<close>

text \<open>
  C33: Shutdown terminates. After \<open>Close\<close> has returned, the server can change at most a number of
  times bounded by the goroutines it still has; wherever it stands then, it can go on to the state in which
  the accept loop has returned, no goroutine and no socket is left and \<open>Wait\<close> has returned; and it
  cannot stop anywhere else.
\<close>

theorem shutdown_terminates:
  assumes "sreachable s" and "shutdown s" and "\<not> listening s" and "smoves n s t"
  shows "n \<le> 2 * wg s + 5 \<and> (\<exists>m u. smoves m t u \<and> quiescent u) \<and>
    ((\<nexists>u. sstep t u \<and> u \<noteq> t) \<longrightarrow> quiescent t)"
proof -
  have cl: "closed s" using assms(1-3) by (simp add: closed_def)
  have t: "closed t" "n \<le> work_left s" using smoves_bounded [OF assms(4) cl] by auto
  have "card (running s) + card (leaving s) = wg s"
    using closed_invs [OF cl] by (simp add: card_Un_disjoint)
  moreover have "serve_left (spc s) \<le> 4" by (cases "spc s") auto
  ultimately have "work_left s \<le> 2 * wg s + 5" by (simp add: work_left_def)
  with t reaches_quiescence closed_progress show ?thesis by (meson order_trans)
qed

theorem shutdown_terminates_witness:
  "\<exists>m u. smoves m missed_conn u \<and> quiescent u"
proof -
  have "shutdown missed_conn" "\<not> listening missed_conn" by (simp_all add: missed_conn_def)
  from shutdown_terminates [OF missed_conn_reachable(2) this smoves.none] show ?thesis by blast
qed

end
