(* ===== verification/Spec2Isabelle.thy ===== *)
theory Spec2Isabelle
  imports Process_Life Handler_Runs Guarded_Conn Cache_Refinement Coalesce_Refinement Client_Health Client_Pacing Client_Logs
    End_To_End Server_Shutdown
begin

text \<open>
  mbproxy is a caching proxy for Modbus TCP. It accepts client connections, answers reads from a
  per-register cache when it can, lets concurrent reads of the same range share one request to the
  device, forwards the rest over one upstream connection with a bounded retry, and protects the
  device from writes. This development models its Go source under \<^verbatim>\<open>src/internal\<close> and
  \<^verbatim>\<open>src/cmd\<close> and proves what makes the parts and their composition correct.

  \<^bold>\<open>How the program fits together.\<close> \<^verbatim>\<open>main\<close> loads the configuration, makes the
  proxy, starts the health endpoint and runs the proxy. The server accepts connections and runs one
  loop per connection: read a frame, call the handler, write the answer. The handler is the proxy:
  it validates the request, looks in the cache, joins or leads a coalesced fetch, calls the upstream
  client, stores the decomposed answer if no write came in between, and falls back to stale values
  if it may. Writes advance a generation counter and invalidate the cache before and after the
  device is contacted. The client owns the only upstream session; it reconnects, retries a read
  once, spaces requests, keeps the health record, and talks through a connection wrapper that
  bounds every socket deadline.

  \<^bold>\<open>Theories and sources.\<close>
  \<^item> \<open>Mb_Prelude\<close>: bytes, 16-bit words, 64-bit durations, clocks, panics, decimal and hexadecimal
    printing; the shared collections \<open>mb_consts\<close>, \<open>mb_ops\<close>, \<open>mb_wf\<close>.
  \<^item> \<open>Go_Errors\<close>: \<^verbatim>\<open>modbus/errors.go\<close>. Errors are a datatype with the unwrap chain;
    \<open>errorsIs\<close> and \<open>errorsAs\<close> walk it. Classification, downstream exception codes, transparency of
    the wrappers.
  \<^item> \<open>Modbus_Frame\<close>, \<open>Modbus_Validate\<close>: frames and requests of \<^verbatim>\<open>modbus/server.go\<close>,
    \<open>ValidateRequest\<close> of \<^verbatim>\<open>modbus/client.go\<close>. Reading a frame never panics, inverts the
    encoding, and consumes exactly the frame; validation is equivalent to the protocol's limits.
  \<^item> \<open>Response_Codec\<close>: \<open>decomposeResponse\<close> and \<open>assembleResponse\<close> of
    \<^verbatim>\<open>proxy/proxy.go\<close>, inverse to each other on canonical responses.
  \<^item> \<open>Cache_Store\<close>, \<open>Cache_Refinement\<close>: storage, expiry and cleanup of
    \<^verbatim>\<open>cache/cache.go\<close>. The locale \<open>value_store\<close> is the contract the proxy uses;
    \<open>Cache_Refinement\<close> states the cache as a history of operations and proves that the keyed entries
    with their cleanup implement it.
  \<^item> \<open>Cache_Coalesce\<close>: \<open>CoalesceWithStatus\<close> as one caller sees it, and as a step relation over any
    number of callers with the in-flight table; one fetch per key, results only from fetches of the
    key, nobody stuck. \<open>Coalesce_Refinement\<close>: every caller of the interleaving that returns has run
    the sequential function on observations the system justifies, so what is proved of the
    handler over \<open>CoalesceWithStatus\<close> holds for concurrent requests.
  \<^item> \<open>Config_Load\<close>: \<^verbatim>\<open>config/config.go\<close> and the level choice of
    \<^verbatim>\<open>logging/logging.go\<close>.
  \<^item> \<open>Upstream_Client\<close>: the client of \<^verbatim>\<open>modbus/client.go\<close> in a state monad over the
    client record, with everything outside (clock, context, network) as an environment indexed by
    the point of the run, the calls recorded in a trace and the log lines in a log. A
    weakest-precondition calculus proves what every run of \<open>Execute\<close> keeps, for every environment.
  \<^item> \<open>Client_Runs\<close>: runs of many operations of the client. The locales \<open>guarantee\<close>,
    \<open>session_guarantee\<close>, \<open>attempt_guarantee\<close> and \<open>request_guarantee\<close> say what a relation between
    worlds must satisfy on the basic actions so that reading the outside, handling the session, an
    attempt, a whole run keeps it; they are interpreted in \<open>Client_Health\<close> (the retry counters and
    the log, the failure streak), \<open>Client_Pacing\<close> (nothing sent, slot not moved) and \<open>Client_Logs\<close>
    (no final record). With a live environment a request is answered; requests are paced by the
    request delay; the health statistics are consistent; every request leaves the one final
    record of its result.
  \<^item> \<open>Client_Session\<close>: the order of the client's actions on the owner token, the connection and the
    session. An acceptor reads the trace and computes which calls reached which slave; triples for
    every operation show that all runs are accepted: no call outside a bound request, no request
    without its slave ID and a bounded timeout, no connection left open when another is dialled.
  \<^item> \<open>Guarded_Conn\<close>: \<open>guardedConn\<close> and \<open>tcpSession\<close> of the same file: deadlines of a bound
    connection, cancellation, isolation of requests, raw requests.
  \<^item> \<open>Server_Loop\<close>: the connection loop over the handler interface (locale \<open>request_handler\<close>) with
    its read deadlines and the deadline of each request's context, which the proxy and the client
    inherit, and the interleaving of \<open>Serve\<close>, \<open>Close\<close>, \<open>Wait\<close> and the connection goroutines. \<open>Server_Shutdown\<close>: after
    \<open>Close\<close> a measure decreases with every change, and the server can only come to rest with
    everything released.
  \<^item> \<open>Proxy_Handler\<close>: \<open>HandleRequest\<close> and its branches over any upstream.
  \<^item> \<open>Proxy_Coherence\<close>: reads and writes interleaved over the cache, the generation counter and a
    device whose registers have versions; a read that starts after a write was answered sees it.
    \<open>Handler_Runs\<close>: a call of the handler that runs alone is a run of these steps.
  \<^item> \<open>Proxy_Server\<close>: the handler with the client as its upstream (locale \<open>upstream_only\<close>) under the
    server loop. \<open>End_To_End\<close>: a read from the bytes of its frame through server, proxy and client
    to the bytes of the answer, and its repetition from the cache.
  \<^item> \<open>Log_Records\<close>, \<open>Request_Logs\<close>: log records and levels; the records of the connection loop, of
    \<^verbatim>\<open>logHandlerError\<close> and of the proxy's handler.
  \<^item> \<open>Health_Endpoint\<close>: \<^verbatim>\<open>health/health.go\<close> and the proxy's health methods.
  \<^item> \<open>Lifecycle\<close>: \<open>Run\<close> and \<open>Shutdown\<close> of the proxy and \<^verbatim>\<open>cmd/mbproxy/main.go\<close>.
    \<open>Process_Life\<close>: what the goroutines may do to the proxy between start and shutdown, and what a
    clean exit leaves behind: every upstream connection that was dialled is closed.

  \<^bold>\<open>State and time.\<close> Go values keep their width: bytes, 16-bit addresses that wrap, 64-bit counters
  and durations. A \<^verbatim>\<open>time.Time\<close> is an integer number of nanoseconds; differences saturate
  as in Go. Out-of-range slices are an explicit panic. Code that another goroutine can interrupt is a
  step relation with one rule per section between two such points; code under one lock is a
  function.

  \<^bold>\<open>Bounds.\<close> Loops over observed iterations (the coalescing loop of one caller, the connection loop)
  recurse on the list of observations, and running out of it is a visible result
  (\<open>None\<close>, \<open>StillOpen\<close>); that enough iterations end the connection loop is proved, and the step
  relation of the callers shows that a waiting caller can always go on. The retry loop runs over the
  two attempts \<open>[1, 2]\<close>, and \<open>Execute\<close> is proved to return. The statements about time assume one
  clock that does not run backwards and timers that do not fire early. The coherence theorems hold for runs with fewer than
  \<open>2 ^ 64\<close> generation steps, since the source's counter has 64 bits.

  \<^bold>\<open>Parameters.\<close> The Modbus library, sockets, the HTTP client and server, \<^verbatim>\<open>time.ParseDuration\<close>,
  the quoting of \<^verbatim>\<open>%q\<close> and the texts of library errors are arguments.

  \<^bold>\<open>Not modelled.\<close> The output format of the logging library; the log line of the accept loop and that
  of a failing health server goroutine; the shutdown of the HTTP server (its result is observed); the size and lifetime of goroutine stacks; fairness of the Go scheduler;
  the test hook \<^verbatim>\<open>beforeAcquire\<close>; blocking on the owner channel (the environment says
  which case of the \<^verbatim>\<open>select\<close> fired, not when).
\<close>

end
